theory Spec2Isabelle
  imports Complex_Main
begin

section \<open>Errors and results\<close>

text \<open>
  Python exceptions are values. \<open>ShapeError\<close> stands for the shape failures of the
  array libraries (jnp.concatenate, jnp.broadcast_to, einops.rearrange).
\<close>

datatype error = AssertionError | IndexError | ZeroDivisionError | KeyError | ValueError | ShapeError

text \<open>Running a list of fallible steps in order: the first error aborts the rest.\<close>

fun sequence_res :: "(error + 'a) list \<Rightarrow> error + 'a list" where
  "sequence_res [] = Inr []"
| "sequence_res (x # xs) =
     (case x of Inl e \<Rightarrow> Inl e
      | Inr v \<Rightarrow> (case sequence_res xs of Inl e \<Rightarrow> Inl e | Inr vs \<Rightarrow> Inr (v # vs)))"

text \<open>Python list indexing with a non-negative index.\<close>

definition list_index :: "'a list \<Rightarrow> nat \<Rightarrow> error + 'a" where
  "list_index xs k = (if k < length xs then Inr (xs ! k) else Inl IndexError)"

section \<open>Token groups (block\_transformer.py)\<close>

text \<open>
  A group carries a name, a token array and its \<open>attends_to\<close> names. An array is
  represented by its shape: a PrefixGroup holds (batch, n\_tokens, token\_embedding\_size),
  a TimestepGroup holds (batch, horizon, n\_tokens, token\_embedding\_size), so the rank
  assertions of \<open>__post_init__\<close> are the types of the two shapes. On a shape s,
  \<open>s.shape[0]\<close> is \<open>fst s\<close>, \<open>s.shape[1]\<close> is \<open>fst (snd s)\<close>, and on a rank-4 shape
  \<open>s.shape[2]\<close> is \<open>fst (snd (snd s))\<close>.
\<close>

record 's group =
  name :: string
  tokens :: 's
  attends_to :: "string list"

type_synonym PrefixGroup = "(nat \<times> nat \<times> nat) group"
type_synonym TimestepGroup = "(nat \<times> nat \<times> nat \<times> nat) group"

datatype TokenMetadata =
  TokenMetadata (group_name: string) (timestep: int) (meta_attends_to: "string list")

record BlockTransformer =
  num_layers :: nat
  mlp_dim :: nat
  num_attention_heads :: nat

subsection \<open>numpy helpers\<close>

fun cumsum_from :: "nat \<Rightarrow> nat list \<Rightarrow> nat list" where
  "cumsum_from acc [] = []"
| "cumsum_from acc (x # xs) = (acc + x) # cumsum_from (acc + x) xs"

definition cumsum :: "nat list \<Rightarrow> nat list" where
  "cumsum xs = cumsum_from 0 xs"

text \<open>np.searchsorted (side = left) on an ascending array: the number of leading
  elements strictly below the value.\<close>

definition searchsorted :: "nat list \<Rightarrow> nat \<Rightarrow> nat" where
  "searchsorted a v = length (takeWhile (\<lambda>x. x < v) a)"

definition get_position :: "nat \<Rightarrow> nat list \<Rightarrow> nat" where
  "get_position i tokens_per_elem = searchsorted (cumsum tokens_per_elem) i"

subsection \<open>generate\_attention\_mask\<close>

definition tokens_per_prefix_group :: "PrefixGroup list \<Rightarrow> nat list" where
  "tokens_per_prefix_group prefix_groups = map (\<lambda>g. fst (snd (tokens g))) prefix_groups"

definition tokens_per_timestep_group :: "TimestepGroup list \<Rightarrow> nat list" where
  "tokens_per_timestep_group timestep_groups =
     map (\<lambda>g. fst (snd (snd (tokens g)))) timestep_groups"

definition tokens_for_prefix :: "PrefixGroup list \<Rightarrow> nat" where
  "tokens_for_prefix prefix_groups = sum_list (tokens_per_prefix_group prefix_groups)"

definition tokens_per_time_step :: "TimestepGroup list \<Rightarrow> nat" where
  "tokens_per_time_step timestep_groups = sum_list (tokens_per_timestep_group timestep_groups)"

text \<open>\<open>pad_mask.shape[1]\<close> of a (batch, horizon) array given as a list of rows.\<close>

definition shape1 :: "'a list list \<Rightarrow> nat" where
  "shape1 m = (case m of [] \<Rightarrow> 0 | r # _ \<Rightarrow> length r)"

definition total_tokens :: "PrefixGroup list \<Rightarrow> TimestepGroup list \<Rightarrow> nat \<Rightarrow> nat" where
  "total_tokens prefix_groups timestep_groups horizon =
     tokens_for_prefix prefix_groups + tokens_per_time_step timestep_groups * horizon"

definition get_token_description ::
  "PrefixGroup list \<Rightarrow> TimestepGroup list \<Rightarrow> nat \<Rightarrow> error + TokenMetadata" where
  "get_token_description prefix_groups timestep_groups i =
     (if i < tokens_for_prefix prefix_groups then
        (let position = get_position i (tokens_per_prefix_group prefix_groups) in
         case list_index prefix_groups position of
           Inl e \<Rightarrow> Inl e
         | Inr g \<Rightarrow> Inr (TokenMetadata (name g) (- 1) (attends_to g)))
      else
        (let i1 = i - tokens_for_prefix prefix_groups in
         if tokens_per_time_step timestep_groups = 0 then Inl ZeroDivisionError
         else
           (let t = i1 div tokens_per_time_step timestep_groups;
                i2 = i1 mod tokens_per_time_step timestep_groups;
                position = get_position i2 (tokens_per_timestep_group timestep_groups) in
            case list_index timestep_groups position of
              Inl e \<Rightarrow> Inl e
            | Inr g \<Rightarrow> Inr (TokenMetadata (name g) (int t) (attends_to g)))))"

text \<open>The body of the double loop: the value written to \<open>attention_mask[i, j]\<close>.\<close>

definition mask_value :: "TokenMetadata \<Rightarrow> TokenMetadata \<Rightarrow> int" where
  "mask_value description_i description_j =
     (if group_name description_i = group_name description_j then
        of_bool (timestep description_i \<le> timestep description_j)
      else if group_name description_j \<in> set (meta_attends_to description_i) then
        of_bool (timestep description_i \<le> timestep description_j)
      else 0)"

definition mask_entry ::
  "PrefixGroup list \<Rightarrow> TimestepGroup list \<Rightarrow> nat \<Rightarrow> nat \<Rightarrow> error + int" where
  "mask_entry prefix_groups timestep_groups i j =
     (case get_token_description prefix_groups timestep_groups i of
        Inl e \<Rightarrow> Inl e
      | Inr description_i \<Rightarrow>
          (case get_token_description prefix_groups timestep_groups j of
             Inl e \<Rightarrow> Inl e
           | Inr description_j \<Rightarrow> Inr (mask_value description_i description_j)))"

definition group_attention_mask ::
  "PrefixGroup list \<Rightarrow> TimestepGroup list \<Rightarrow> nat \<Rightarrow> error + int list list" where
  "group_attention_mask prefix_groups timestep_groups horizon =
     (let total = total_tokens prefix_groups timestep_groups horizon in
      sequence_res (map (\<lambda>i. sequence_res (map (\<lambda>j. mask_entry prefix_groups timestep_groups i j)
                                                 [0..<total]))
                        [0..<total]))"

subsection \<open>generate\_pad\_attention\_mask\<close>

text \<open>
  \<open>jnp.repeat\<close> along axis 1 repeats every entry of a row; the prefix columns are
  ones; the (batch, total) mask is broadcast to (batch, heads, total, total), which
  fails unless its rows have length total.
\<close>

definition generate_pad_attention_mask ::
  "BlockTransformer \<Rightarrow> bool list list \<Rightarrow> nat \<Rightarrow> nat \<Rightarrow> error + int list list list list" where
  "generate_pad_attention_mask self pad_mask tokens_per_time_step_n tokens_for_prefix_n =
     (let horizon = shape1 pad_mask;
          total = tokens_for_prefix_n + tokens_per_time_step_n * horizon;
          sequence_mask = map (\<lambda>row. concat (map (\<lambda>v. replicate tokens_per_time_step_n (of_bool v)) row))
                              pad_mask;
          task_mask = map (\<lambda>row. replicate tokens_for_prefix_n (1::int)) pad_mask;
          full_mask = map2 (\<lambda>t s. t @ s) task_mask sequence_mask in
      if list_all (\<lambda>row. length row = total) full_mask then
        Inr (map (\<lambda>row. replicate (num_attention_heads self) (replicate total row)) full_mask)
      else Inl ShapeError)"

text \<open>\<open>jnp.logical_and\<close> of the (total, total) group mask with the
  (batch, heads, total, total) pad mask, the former broadcast over batch and heads.\<close>

definition logical_and :: "int list list \<Rightarrow> int list list list list \<Rightarrow> bool list list list list" where
  "logical_and a p =
     map (\<lambda>per_batch. map (\<lambda>per_head.
            map2 (\<lambda>row prow. map2 (\<lambda>x y. x \<noteq> 0 \<and> y \<noteq> 0) row prow) a per_head) per_batch) p"

definition generate_attention_mask ::
  "BlockTransformer \<Rightarrow> PrefixGroup list \<Rightarrow> TimestepGroup list \<Rightarrow> bool list list
     \<Rightarrow> error + bool list list list list" where
  "generate_attention_mask self prefix_groups timestep_groups pad_mask =
     (let horizon = shape1 pad_mask in
      case group_attention_mask prefix_groups timestep_groups horizon of
        Inl e \<Rightarrow> Inl e
      | Inr attention_mask \<Rightarrow>
          (case generate_pad_attention_mask self pad_mask
                  (tokens_per_time_step timestep_groups) (tokens_for_prefix prefix_groups) of
             Inl e \<Rightarrow> Inl e
           | Inr pad_attention_mask \<Rightarrow> Inr (logical_and attention_mask pad_attention_mask)))"

text \<open>The descriptor of a position as a total function; it agrees with
  \<open>get_token_description\<close> on every position of the sequence
  (lemma \<open>get_token_description_Inr\<close>).\<close>

definition descr :: "PrefixGroup list \<Rightarrow> TimestepGroup list \<Rightarrow> nat \<Rightarrow> TokenMetadata" where
  "descr pg tg i =
     (if i < tokens_for_prefix pg then
        (let g = pg ! get_position i (tokens_per_prefix_group pg) in
         TokenMetadata (name g) (- 1) (attends_to g))
      else
        (let i1 = i - tokens_for_prefix pg;
             g = tg ! get_position (i1 mod tokens_per_time_step tg) (tokens_per_timestep_group tg) in
         TokenMetadata (name g) (int (i1 div tokens_per_time_step tg)) (attends_to g)))"

text \<open>One row of \<open>full_mask\<close>: ones for the prefix, then every pad entry repeated.\<close>

definition full_row :: "nat \<Rightarrow> nat \<Rightarrow> bool list \<Rightarrow> int list" where
  "full_row tfp tps row = replicate tfp 1 @ concat (map (\<lambda>v. replicate tps (of_bool v)) row)"

subsection \<open>The example of the specification\<close>

text \<open>One prefix group "task" of 3 tokens attending to nothing, one timestep group "obs"
  of 2 tokens per step attending to "task", batch 1, horizon 2, embedding size 4.\<close>

definition ex_task :: PrefixGroup where
  "ex_task = \<lparr>name = ''task'', tokens = (1, 3, 4), attends_to = []\<rparr>"

definition ex_obs :: TimestepGroup where
  "ex_obs = \<lparr>name = ''obs'', tokens = (1, 2, 2, 4), attends_to = [''task'']\<rparr>"

definition ex_self :: BlockTransformer where
  "ex_self = \<lparr>num_layers = 4, mlp_dim = 1024, num_attention_heads = 8\<rparr>"

subsection \<open>assemble\_input\_tokens\<close>

text \<open>
  \<open>jnp.concatenate\<close> on shapes: along axis 1 of rank-3 arrays and along axis 2 of
  rank-4 arrays. Every other dimension has to agree; an empty list is refused.
\<close>

definition concatenate_axis1 :: "(nat \<times> nat \<times> nat) list \<Rightarrow> error + (nat \<times> nat \<times> nat)" where
  "concatenate_axis1 shapes =
     (case shapes of
        [] \<Rightarrow> Inl ValueError
      | (b, n, d) # rest \<Rightarrow>
          if list_all (\<lambda>(b', n', d'). b' = b \<and> d' = d) rest
          then Inr (b, sum_list (map (\<lambda>(b', n', d'). n') shapes), d)
          else Inl ShapeError)"

definition concatenate_axis2 ::
  "(nat \<times> nat \<times> nat \<times> nat) list \<Rightarrow> error + (nat \<times> nat \<times> nat \<times> nat)" where
  "concatenate_axis2 shapes =
     (case shapes of
        [] \<Rightarrow> Inl ValueError
      | (b, h, n, d) # rest \<Rightarrow>
          if list_all (\<lambda>(b', h', n', d'). b' = b \<and> h' = h \<and> d' = d) rest
          then Inr (b, h, sum_list (map (\<lambda>(b', h', n', d'). n') shapes), d)
          else Inl ShapeError)"

definition assemble_input_tokens ::
  "PrefixGroup list \<Rightarrow> TimestepGroup list \<Rightarrow> error + (nat \<times> nat \<times> nat)" where
  "assemble_input_tokens prefix_groups timestep_groups =
     (case (if length prefix_groups > 0 then concatenate_axis1 (map tokens prefix_groups)
            else (case list_index timestep_groups 0 of
                    Inl e \<Rightarrow> Inl e
                  | Inr g \<Rightarrow> (case tokens g of (b, h, n, d) \<Rightarrow> Inr (b, 0, d)))) of
        Inl e \<Rightarrow> Inl e
      | Inr all_prefix_tokens \<Rightarrow>
          (case concatenate_axis2 (map tokens timestep_groups) of
             Inl e \<Rightarrow> Inl e
           | Inr (b, h, n, d) \<Rightarrow> concatenate_axis1 [all_prefix_tokens, (b, h * n, d)]))"

subsection \<open>The forward pass\<close>

text \<open>
  \<open>jnp.split(ary, indices, axis)\<close> cuts the axis of length L into the slices
  \<open>[0:i0], [i0:i1], ..., [ik:]\<close>; a slice clamps its bounds to L and is empty when
  they cross. \<open>split_from L lo indices\<close> lists the lengths of the slices from bound lo on.
\<close>

fun split_from :: "nat \<Rightarrow> nat \<Rightarrow> nat list \<Rightarrow> nat list" where
  "split_from L lo [] = [L - min lo L]"
| "split_from L lo (i # indices) = (min i L - min lo L) # split_from L i indices"

definition split_tokens_axis1 :: "nat \<times> nat \<times> nat \<Rightarrow> nat list \<Rightarrow> (nat \<times> nat \<times> nat) list" where
  "split_tokens_axis1 ary n_tokens_per_group =
     (case ary of (b, L, d) \<Rightarrow> map (\<lambda>n. (b, n, d)) (split_from L 0 (cumsum n_tokens_per_group)))"

definition split_tokens_axis2 ::
  "nat \<times> nat \<times> nat \<times> nat \<Rightarrow> nat list \<Rightarrow> (nat \<times> nat \<times> nat \<times> nat) list" where
  "split_tokens_axis2 ary n_tokens_per_group =
     (case ary of (b, h, L, d) \<Rightarrow> map (\<lambda>n. (b, h, n, d)) (split_from L 0 (cumsum n_tokens_per_group)))"

text \<open>einops.rearrange "batch (horizon n\_tokens) d -> batch horizon n\_tokens d" with the
  horizon given: the sequence length is divided by the horizon.\<close>

definition rearrange_unfold :: "nat \<times> nat \<times> nat \<Rightarrow> nat \<Rightarrow> error + (nat \<times> nat \<times> nat \<times> nat)" where
  "rearrange_unfold ary horizon =
     (case ary of (b, s, d) \<Rightarrow>
        if horizon = 0 then Inl ZeroDivisionError
        else if s mod horizon \<noteq> 0 then Inl ShapeError
        else Inr (b, horizon, s div horizon, d))"

text \<open>
  The transformer of \<open>orca.model.components.transformer\<close> is a parameter: from the
  shape of the input tokens, the attention mask and the train flag to the shape of its
  output, or an error.
\<close>

type_synonym Transformer =
  "nat \<times> nat \<times> nat \<Rightarrow> bool list list list list \<Rightarrow> bool \<Rightarrow> error + (nat \<times> nat \<times> nat)"

text \<open>Lines 112-113: the horizon of the first timestep group, asserted for all of them.\<close>

definition check_horizon :: "TimestepGroup list \<Rightarrow> error + nat" where
  "check_horizon timestep_groups =
     (case list_index timestep_groups 0 of
        Inl e \<Rightarrow> Inl e
      | Inr g0 \<Rightarrow>
          (let horizon = fst (snd (tokens g0)) in
           if list_all (\<lambda>g. fst (snd (tokens g)) = horizon) timestep_groups
           then Inr horizon else Inl AssertionError))"

text \<open>Lines 130-161: the output of the transformer split back into groups.\<close>

definition disassemble ::
  "PrefixGroup list \<Rightarrow> TimestepGroup list \<Rightarrow> nat \<Rightarrow> nat \<times> nat \<times> nat
     \<Rightarrow> error + (PrefixGroup list \<times> TimestepGroup list)" where
  "disassemble prefix_groups timestep_groups horizon output =
     (let n_prefix_tokens = sum_list (tokens_per_prefix_group prefix_groups);
          (prefix_embeddings, timestep_embeddings) =
             (case output of (b, s, d) \<Rightarrow>
                ((b, min n_prefix_tokens s, d), (b, s - min n_prefix_tokens s, d)));
          all_prefix_outputs =
             (if length prefix_groups > 0 then
                map2 (\<lambda>g embeddings. g\<lparr>tokens := embeddings\<rparr>) prefix_groups
                  (split_tokens_axis1 prefix_embeddings (tokens_per_prefix_group prefix_groups))
              else []) in
      case rearrange_unfold timestep_embeddings horizon of
        Inl e \<Rightarrow> Inl e
      | Inr timestep_embeddings4 \<Rightarrow>
          Inr (all_prefix_outputs,
               map2 (\<lambda>g embeddings. g\<lparr>tokens := embeddings\<rparr>) timestep_groups
                 (split_tokens_axis2 timestep_embeddings4
                    (tokens_per_timestep_group timestep_groups))))"

definition BlockTransformer_call ::
  "BlockTransformer \<Rightarrow> Transformer \<Rightarrow> PrefixGroup list \<Rightarrow> TimestepGroup list
     \<Rightarrow> bool list list \<Rightarrow> bool \<Rightarrow> error + (PrefixGroup list \<times> TimestepGroup list)" where
  "BlockTransformer_call self transformer prefix_groups timestep_groups timestep_pad_mask train =
     (case check_horizon timestep_groups of
        Inl e \<Rightarrow> Inl e
      | Inr horizon \<Rightarrow>
          (case generate_attention_mask self prefix_groups timestep_groups timestep_pad_mask of
             Inl e \<Rightarrow> Inl e
           | Inr attention_mask \<Rightarrow>
               (case assemble_input_tokens prefix_groups timestep_groups of
                  Inl e \<Rightarrow> Inl e
                | Inr input_tokens \<Rightarrow>
                    (case transformer input_tokens attention_mask train of
                       Inl e \<Rightarrow> Inl e
                     | Inr output \<Rightarrow>
                         disassemble prefix_groups timestep_groups horizon output))))"

text \<open>An encoder that keeps batch and sequence length and returns embeddings of width 8,
  and one that always fails.\<close>

definition ex_transformer :: Transformer where
  "ex_transformer input_tokens attention_mask train = (case input_tokens of (b, s, d) \<Rightarrow> Inr (b, s, 8))"

definition failing_transformer :: Transformer where
  "failing_transformer input_tokens attention_mask train = Inl ValueError"

text \<open>Further groups for the examples: an "act" group of one token per step with horizon 2,
  the same with horizon 3, and an "obs" group of horizon 0.\<close>

definition ex_act :: TimestepGroup where
  "ex_act = \<lparr>name = ''act'', tokens = (1, 2, 1, 4), attends_to = [''task'', ''obs'']\<rparr>"

definition ex_act_h3 :: TimestepGroup where
  "ex_act_h3 = \<lparr>name = ''act'', tokens = (1, 3, 1, 4), attends_to = [''task'', ''obs'']\<rparr>"

definition ex_obs_h0 :: TimestepGroup where
  "ex_obs_h0 = \<lparr>name = ''obs'', tokens = (1, 0, 2, 4), attends_to = [''task'']\<rparr>"

text \<open>A group that no other group attends to and that attends to nothing.\<close>

definition ex_value :: TimestepGroup where
  "ex_value = \<lparr>name = ''value'', tokens = (1, 2, 1, 4), attends_to = []\<rparr>"

section \<open>Dataset mixtures (oxe\_dataset\_mixes.py)\<close>

text \<open>
  Modelled from the spec: the enum \<open>ActionEncoding\<close> is imported from data\_utils, whose
  source here does not declare it. The spec names one supported member, the end-effector
  pose delta encoding \<open>EEF_POS\<close>; every other member is an \<open>OTHER_ENCODING\<close>.
\<close>

datatype ActionEncoding = EEF_POS | OTHER_ENCODING nat

text \<open>
  Modelled from the spec: the table \<open>OXE_DATASET_KWARGS\<close> of oxe\_dataset\_configs is not
  among the sources. It is a parameter of the resolver, a map from dataset names to
  entries with the four fields of the registry interface of the spec.
\<close>

record dataset_kwargs =
  action_encoding :: ActionEncoding
  image_obs_keys :: "string list"
  depth_obs_keys :: "string list"
  state_obs_keys :: "string list"

text \<open>An element of the returned list: the dict with "name", "data\_dir" and the entry's
  keys; a popped key is \<open>None\<close>.\<close>

record load_config =
  cfg_name :: string
  cfg_data_dir :: string
  cfg_action_encoding :: ActionEncoding
  cfg_image_obs_keys :: "string list"
  cfg_depth_obs_keys :: "string list option"
  cfg_state_obs_keys :: "string list option"

text \<open>Python slices \<open>xs[:n]\<close> and \<open>xs[n:]\<close>; a negative bound counts from the end.\<close>

definition slice_to :: "'a list \<Rightarrow> int \<Rightarrow> 'a list" where
  "slice_to xs n = (if 0 \<le> n then take (nat n) xs else take (length xs - nat (- n)) xs)"

definition slice_from :: "'a list \<Rightarrow> int \<Rightarrow> 'a list" where
  "slice_from xs n = (if 0 \<le> n then drop (nat n) xs else drop (length xs - nat (- n)) xs)"

text \<open>Lines 150-156 (and 157-163 for the depth keys).\<close>

definition trim_keys :: "string list \<Rightarrow> int \<Rightarrow> int \<Rightarrow> string list" where
  "trim_keys keys n_third_person_cameras n_wrist_cameras =
     slice_to keys n_third_person_cameras
     @ (if n_wrist_cameras \<noteq> 0 then slice_from keys (- n_wrist_cameras) else [])"

text \<open>Lines 130-137: the loop over the mix with its two accumulators. The print of a
  skipped duplicate is not modelled.\<close>

fun dedup_loop ::
  "(string \<times> 'w) list \<Rightarrow> (string \<times> 'w) list \<Rightarrow> string list \<Rightarrow> (string \<times> 'w) list" where
  "dedup_loop [] filtered_datasets included_dataset_names = filtered_datasets"
| "dedup_loop ((dataset, weight) # rest) filtered_datasets included_dataset_names =
     (if dataset \<notin> set included_dataset_names then
        dedup_loop rest (filtered_datasets @ [(dataset, weight)]) (included_dataset_names @ [dataset])
      else dedup_loop rest filtered_datasets included_dataset_names)"

text \<open>Lines 140-173: the loop that resolves every dataset of the mix.\<close>

fun resolve_loop ::
  "(string \<rightharpoonup> dataset_kwargs) \<Rightarrow> string \<Rightarrow> int \<Rightarrow> int \<Rightarrow> bool \<Rightarrow> bool
     \<Rightarrow> (string \<times> 'w) list \<Rightarrow> load_config list \<Rightarrow> 'w list
     \<Rightarrow> error + (load_config list \<times> 'w list)" where
  "resolve_loop registry data_dir n3 nw load_depth load_proprio [] data_kwargs_list weights =
     Inr (data_kwargs_list, weights)"
| "resolve_loop registry data_dir n3 nw load_depth load_proprio ((dataset, weight) # rest)
       data_kwargs_list weights =
     (case registry dataset of
        None \<Rightarrow> Inl KeyError
      | Some kw \<Rightarrow>
          if action_encoding kw \<noteq> EEF_POS then
            resolve_loop registry data_dir n3 nw load_depth load_proprio rest data_kwargs_list weights
          else
            resolve_loop registry data_dir n3 nw load_depth load_proprio rest
              (data_kwargs_list @
                 [\<lparr>cfg_name = dataset, cfg_data_dir = data_dir,
                   cfg_action_encoding = action_encoding kw,
                   cfg_image_obs_keys = trim_keys (image_obs_keys kw) n3 nw,
                   cfg_depth_obs_keys =
                     (if load_depth then Some (trim_keys (depth_obs_keys kw) n3 nw) else None),
                   cfg_state_obs_keys =
                     (if load_proprio then Some (state_obs_keys kw) else None)\<rparr>])
              (weights @ [weight]))"

definition make_oxe_dataset_kwargs_and_weights ::
  "(string \<rightharpoonup> dataset_kwargs) \<Rightarrow> (string \<times> 'w) list \<Rightarrow> string \<Rightarrow> bool \<Rightarrow> int \<Rightarrow> int
     \<Rightarrow> bool \<Rightarrow> bool \<Rightarrow> error + (load_config list \<times> 'w list)" where
  "make_oxe_dataset_kwargs_and_weights registry data_mix data_dir deduplicate
       n_third_person_cameras n_wrist_cameras load_depth load_proprio =
     (let data_mix1 = (if deduplicate then dedup_loop data_mix [] [] else data_mix) in
      resolve_loop registry data_dir n_third_person_cameras n_wrist_cameras load_depth load_proprio
        data_mix1 [] [])"

text \<open>The words of the spec, "first occurrence wins, later duplicates dropped": the head
  entry is kept and every later entry of the same name is removed.\<close>

fun first_occurrences :: "(string \<times> 'w) list \<Rightarrow> (string \<times> 'w) list" where
  "first_occurrences [] = []"
| "first_occurrences ((n, w) # rest) =
     (n, w) # first_occurrences (filter (\<lambda>e. fst e \<noteq> n) rest)"

text \<open>A registry for the examples: "a", "b" and "cams" with a supported encoding, "joint"
  with another one.\<close>

definition ex_entry :: dataset_kwargs where
  "ex_entry = \<lparr>action_encoding = EEF_POS, image_obs_keys = [''cam0'', ''cam1'', ''cam2'', ''wrist0''],
      depth_obs_keys = [''depth0'', ''depth1''], state_obs_keys = [''state'']\<rparr>"

definition ex_registry :: "string \<rightharpoonup> dataset_kwargs" where
  "ex_registry =
     [''a'' \<mapsto> ex_entry, ''b'' \<mapsto> ex_entry, ''cams'' \<mapsto> ex_entry,
      ''joint'' \<mapsto> ex_entry\<lparr>action_encoding := OTHER_ENCODING 2\<rparr>]"

text \<open>The dict appended by the loop for a registered dataset with a supported encoding
  (used in the lemmas where the dataset is registered).\<close>

definition resolved_config ::
  "(string \<rightharpoonup> dataset_kwargs) \<Rightarrow> string \<Rightarrow> int \<Rightarrow> int \<Rightarrow> bool \<Rightarrow> bool \<Rightarrow> string \<Rightarrow> load_config" where
  "resolved_config registry data_dir n3 nw load_depth load_proprio dataset =
     (let kw = the (registry dataset) in
      \<lparr>cfg_name = dataset, cfg_data_dir = data_dir,
       cfg_action_encoding = action_encoding kw,
       cfg_image_obs_keys = trim_keys (image_obs_keys kw) n3 nw,
       cfg_depth_obs_keys =
         (if load_depth then Some (trim_keys (depth_obs_keys kw) n3 nw) else None),
       cfg_state_obs_keys =
         (if load_proprio then Some (state_obs_keys kw) else None)\<rparr>)"

text \<open>The mixes of the examples.\<close>

definition ex_mix :: "(string \<times> real) list" where
  "ex_mix = [(''a'', 1), (''b'', 2), (''a'', 3)]"

definition ex_cams_mix :: "(string \<times> real) list" where
  "ex_cams_mix = [(''cams'', 1)]"

section \<open>BinTokenizer (tokenizers.py)\<close>

text \<open>
  Floating-point values are modelled by reals: the tokenizer only compares its input
  with the thresholds, and the comparisons of (non-NaN) floats are those of their values.
  \<open>jnp.linspace\<close> is the evenly spaced grid; \<open>norm.ppf\<close> of jax.scipy is a parameter.
\<close>

definition EPS :: real where
  "EPS = 1 / 1000000"

definition linspace :: "real \<Rightarrow> real \<Rightarrow> nat \<Rightarrow> real list" where
  "linspace start stop num =
     map (\<lambda>k. start + real k * (stop - start) / real (num - 1)) [0..<num]"

record BinTokenizer =
  n_bins :: nat
  bin_type :: string
  low :: real
  high :: real

definition BinTokenizer_setup :: "(real \<Rightarrow> real) \<Rightarrow> BinTokenizer \<Rightarrow> error + real list" where
  "BinTokenizer_setup ppf self =
     (if bin_type self = ''uniform'' then Inr (linspace (low self) (high self) (n_bins self + 1))
      else if bin_type self = ''normal'' then
        Inr (map ppf (linspace EPS (1 - EPS) (n_bins self + 1)))
      else Inl ValueError)"

text \<open>\<open>jnp.clip\<close>, and \<open>jnp.argmax\<close> along the last axis: the first index of the maximum;
  an empty axis is refused.\<close>

definition clip :: "real \<Rightarrow> real \<Rightarrow> real \<Rightarrow> real" where
  "clip x lo hi = min (max x lo) hi"

definition argmax :: "nat list \<Rightarrow> error + nat" where
  "argmax xs =
     (if xs = [] then Inl ValueError
      else Inr (length (takeWhile (\<lambda>v. v \<noteq> Max (set xs)) xs)))"

text \<open>Lines 233-236 for one input value: the conjunction of the two comparisons, per bin,
  as 0 or 1.\<close>

definition token_one_hot :: "real list \<Rightarrow> real \<Rightarrow> nat list" where
  "token_one_hot thresholds x =
     map2 (\<lambda>upper lower. if x < upper \<and> lower \<le> x then 1 else 0) (tl thresholds) (butlast thresholds)"

definition BinTokenizer_call :: "(real \<Rightarrow> real) \<Rightarrow> BinTokenizer \<Rightarrow> real \<Rightarrow> error + nat" where
  "BinTokenizer_call ppf self inputs =
     (case BinTokenizer_setup ppf self of
        Inl e \<Rightarrow> Inl e
      | Inr thresholds \<Rightarrow>
          (let inputs1 = (if bin_type self = ''uniform''
                          then clip inputs (low self + EPS) (high self - EPS) else inputs) in
           argmax (token_one_hot thresholds inputs1)))"

text \<open>A tokenizer of two normal bins, and a stand-in for the quantile function.\<close>

definition ex_tokenizer :: BinTokenizer where
  "ex_tokenizer = \<lparr>n_bins = 2, bin_type = ''normal'', low = 0, high = 1\<rparr>"

definition ex_ppf :: "real \<Rightarrow> real" where
  "ex_ppf p = 8 * p - 4"

section \<open>Properties of the attention mask\<close>

lemma sequence_res_map_Inr:
  "(\<And>x. x \<in> set xs \<Longrightarrow> f x = Inr (g x)) \<Longrightarrow> sequence_res (map f xs) = Inr (map g xs)"
  by (induction xs) simp_all

lemma searchsorted_cumsum_from_less:
  "acc \<le> v \<Longrightarrow> v < acc + sum_list xs \<Longrightarrow> searchsorted (cumsum_from acc xs) v < length xs"
proof (induction xs arbitrary: acc)
  case Nil
  then show ?case by (simp add: searchsorted_def)
next
  case (Cons x xs)
  show ?case
  proof (cases "acc + x < v")
    case True
    have "v < (acc + x) + sum_list xs" using Cons.prems by simp
    moreover have "acc + x \<le> v" using True by simp
    ultimately have "searchsorted (cumsum_from (acc + x) xs) v < length xs" by (rule Cons.IH[rotated])
    with True show ?thesis by (simp add: searchsorted_def)
  next
    case False
    then show ?thesis by (simp add: searchsorted_def)
  qed
qed

lemma get_position_less:
  "i < sum_list xs \<Longrightarrow> get_position i xs < length xs"
  using searchsorted_cumsum_from_less[of 0 i xs] by (simp add: get_position_def cumsum_def)

lemma get_token_description_Inr:
  assumes "i < total_tokens pg tg horizon"
  shows "get_token_description pg tg i = Inr (descr pg tg i)"
proof (cases "i < tokens_for_prefix pg")
  case True
  then have "get_position i (tokens_per_prefix_group pg) < length pg"
    using get_position_less[of i "tokens_per_prefix_group pg"]
    by (simp add: tokens_for_prefix_def tokens_per_prefix_group_def)
  with True show ?thesis
    by (simp add: get_token_description_def descr_def list_index_def Let_def)
next
  case False
  with assms have pos: "0 < tokens_per_time_step tg"
    by (cases "tokens_per_time_step tg = 0") (simp_all add: total_tokens_def)
  then have "(i - tokens_for_prefix pg) mod tokens_per_time_step tg < sum_list (tokens_per_timestep_group tg)"
    by (simp add: tokens_per_time_step_def)
  then have "get_position ((i - tokens_for_prefix pg) mod tokens_per_time_step tg)
               (tokens_per_timestep_group tg) < length tg"
    using get_position_less[of _ "tokens_per_timestep_group tg"]
    by (simp add: tokens_per_timestep_group_def)
  with False pos show ?thesis
    by (simp add: get_token_description_def descr_def list_index_def Let_def)
qed

lemma mask_entry_Inr:
  assumes "i < total_tokens pg tg horizon" "j < total_tokens pg tg horizon"
  shows "mask_entry pg tg i j = Inr (mask_value (descr pg tg i) (descr pg tg j))"
  using assms by (simp add: mask_entry_def get_token_description_Inr)

lemma group_attention_mask_Inr:
  "group_attention_mask pg tg horizon =
     Inr (map (\<lambda>i. map (\<lambda>j. mask_value (descr pg tg i) (descr pg tg j))
                        [0..<total_tokens pg tg horizon])
              [0..<total_tokens pg tg horizon])"
  unfolding group_attention_mask_def Let_def
  by (rule sequence_res_map_Inr, rule sequence_res_map_Inr) (simp add: mask_entry_Inr)

lemma timestep_descr:
  "timestep (descr pg tg i) =
     (if i < tokens_for_prefix pg then - 1
      else int ((i - tokens_for_prefix pg) div tokens_per_time_step tg))"
  by (simp add: descr_def Let_def)

lemma mask_value_self: "mask_value d d = 1"
  by (simp add: mask_value_def)

lemma length_concat_replicate:
  "length (concat (map (\<lambda>v. replicate n (f v)) r)) = n * length r"
  by (induction r) simp_all

lemma nth_concat_replicate:
  "k < n * length r \<Longrightarrow> concat (map (\<lambda>v. replicate n (f v)) r) ! k = f (r ! (k div n))"
proof (induction r arbitrary: k)
  case Nil
  then show ?case by simp
next
  case (Cons x r)
  show ?case
  proof (cases "k < n")
    case True
    then show ?thesis by (simp add: nth_append)
  next
    case False
    then have "k - n < n * length r" using Cons.prems by simp
    moreover have "0 < n" using Cons.prems by (cases n) simp_all
    then have "k div n = Suc ((k - n) div n)" using False by (simp add: le_div_geq)
    ultimately show ?thesis using False Cons.IH[of "k - n"]
      by (simp add: nth_append)
  qed
qed

lemma length_full_row: "length (full_row tfp tps row) = tfp + tps * length row"
  by (simp add: full_row_def length_concat_replicate)

lemma nth_full_row:
  "j < tfp + tps * length row \<Longrightarrow>
   full_row tfp tps row ! j = (if j < tfp then 1 else of_bool (row ! ((j - tfp) div tps)))"
  by (simp add: full_row_def nth_append nth_concat_replicate)

lemma map2_same: "map2 f (map g xs) (map h xs) = map (\<lambda>x. f (g x) (h x)) xs"
  by (induction xs) simp_all

lemma generate_pad_attention_mask_Inr:
  assumes "\<forall>row \<in> set pad_mask. length row = shape1 pad_mask"
  shows "generate_pad_attention_mask self pad_mask tps tfp =
         Inr (map (\<lambda>row. replicate (num_attention_heads self)
                     (replicate (tfp + tps * shape1 pad_mask) (full_row tfp tps row))) pad_mask)"
proof -
  have "list_all (\<lambda>row. length row = tfp + tps * shape1 pad_mask)
          (map (\<lambda>row. full_row tfp tps row) pad_mask)"
    using assms by (simp add: list_all_iff length_full_row)
  then show ?thesis
    unfolding generate_pad_attention_mask_def Let_def map2_same
    by (simp add: full_row_def)
qed

lemma logical_and_nth:
  assumes "b < length p" "h < length (p ! b)" "i < length a" "i < length (p ! b ! h)"
    "j < length (a ! i)" "j < length (p ! b ! h ! i)"
  shows "logical_and a p ! b ! h ! i ! j = (a ! i ! j \<noteq> 0 \<and> p ! b ! h ! i ! j \<noteq> 0)"
  using assms by (simp add: logical_and_def)

lemma generate_attention_mask_Inr:
  assumes "\<forall>row \<in> set pad_mask. length row = shape1 pad_mask"
  shows "generate_attention_mask self pg tg pad_mask =
         Inr (logical_and
               (map (\<lambda>i. map (\<lambda>j. mask_value (descr pg tg i) (descr pg tg j))
                        [0..<total_tokens pg tg (shape1 pad_mask)])
                    [0..<total_tokens pg tg (shape1 pad_mask)])
               (map (\<lambda>row. replicate (num_attention_heads self)
                       (replicate (total_tokens pg tg (shape1 pad_mask))
                          (full_row (tokens_for_prefix pg) (tokens_per_time_step tg) row))) pad_mask))"
  using assms
  by (simp add: generate_attention_mask_def group_attention_mask_Inr
      generate_pad_attention_mask_Inr total_tokens_def Let_def)

lemma final_mask_nth:
  assumes rect: "\<forall>row \<in> set pad_mask. length row = shape1 pad_mask"
    and b: "b < length pad_mask" and h: "h < num_attention_heads self"
    and i: "i < total_tokens pg tg (shape1 pad_mask)"
    and j: "j < total_tokens pg tg (shape1 pad_mask)"
    and a: "group_attention_mask pg tg (shape1 pad_mask) = Inr a"
    and p: "generate_pad_attention_mask self pad_mask (tokens_per_time_step tg) (tokens_for_prefix pg) = Inr p"
    and m: "generate_attention_mask self pg tg pad_mask = Inr m"
  shows "a ! i ! j = mask_value (descr pg tg i) (descr pg tg j)"
    and "p ! b ! h ! i ! j =
           (if j < tokens_for_prefix pg then 1
            else of_bool (pad_mask ! b ! ((j - tokens_for_prefix pg) div tokens_per_time_step tg)))"
    and "m ! b ! h ! i ! j = (a ! i ! j \<noteq> 0 \<and> p ! b ! h ! i ! j \<noteq> 0)"
proof -
  let ?T = "total_tokens pg tg (shape1 pad_mask)"
  have len: "length (pad_mask ! b) = shape1 pad_mask" using rect b by simp
  have a_eq: "a = map (\<lambda>i. map (\<lambda>j. mask_value (descr pg tg i) (descr pg tg j)) [0..<?T]) [0..<?T]"
    using a by (simp add: group_attention_mask_Inr)
  have p_eq: "p = map (\<lambda>row. replicate (num_attention_heads self)
                       (replicate ?T (full_row (tokens_for_prefix pg) (tokens_per_time_step tg) row))) pad_mask"
    using p rect by (simp add: generate_pad_attention_mask_Inr total_tokens_def)
  have m_eq: "m = logical_and a p"
    using m a p by (simp add: generate_attention_mask_def)
  show A: "a ! i ! j = mask_value (descr pg tg i) (descr pg tg j)"
    using i j by (simp add: a_eq)
  have pn: "p ! b ! h ! i = full_row (tokens_for_prefix pg) (tokens_per_time_step tg) (pad_mask ! b)"
    using b h i by (simp add: p_eq)
  have "j < tokens_for_prefix pg + tokens_per_time_step tg * length (pad_mask ! b)"
    using j len by (simp add: total_tokens_def)
  then show "p ! b ! h ! i ! j =
           (if j < tokens_for_prefix pg then 1
            else of_bool (pad_mask ! b ! ((j - tokens_for_prefix pg) div tokens_per_time_step tg)))"
    unfolding pn by (rule nth_full_row)
  have "j < length (p ! b ! h ! i)"
    using j len unfolding pn by (simp add: length_full_row total_tokens_def)
  moreover have "b < length p" "h < length (p ! b)" "i < length (p ! b ! h)"
    using b h i by (simp_all add: p_eq)
  moreover have "i < length a" "j < length (a ! i)" using i j by (simp_all add: a_eq)
  ultimately show "m ! b ! h ! i ! j = (a ! i ! j \<noteq> 0 \<and> p ! b ! h ! i ! j \<noteq> 0)"
    unfolding m_eq by (simp add: logical_and_nth)
qed

lemma final_mask_shape:
  assumes rect: "\<forall>row \<in> set pad_mask. length row = shape1 pad_mask"
    and b: "b < length pad_mask" and h: "h < num_attention_heads self"
    and i: "i < total_tokens pg tg (shape1 pad_mask)"
    and m: "generate_attention_mask self pg tg pad_mask = Inr m"
  shows "length m = length pad_mask"
    and "length (m ! b) = num_attention_heads self"
    and "length (m ! b ! h) = total_tokens pg tg (shape1 pad_mask)"
    and "length (m ! b ! h ! i) = total_tokens pg tg (shape1 pad_mask)"
proof -
  let ?T = "total_tokens pg tg (shape1 pad_mask)"
  let ?a = "map (\<lambda>i. map (\<lambda>j. mask_value (descr pg tg i) (descr pg tg j)) [0..<?T]) [0..<?T]"
  let ?p = "map (\<lambda>row. replicate (num_attention_heads self)
                (replicate ?T (full_row (tokens_for_prefix pg) (tokens_per_time_step tg) row))) pad_mask"
  have m_eq: "m = logical_and ?a ?p"
    using m generate_attention_mask_Inr[OF rect, of self pg tg] by simp
  have len: "length (pad_mask ! b) = shape1 pad_mask" using rect b by simp
  show "length m = length pad_mask" by (simp add: m_eq logical_and_def)
  show "length (m ! b) = num_attention_heads self"
    using b by (simp add: m_eq logical_and_def)
  show "length (m ! b ! h) = ?T"
    using b h by (simp add: m_eq logical_and_def)
  show "length (m ! b ! h ! i) = ?T"
    using b h i len by (simp add: m_eq logical_and_def length_full_row total_tokens_def)
qed

text \<open>
  C4. Padding exclusion as keys. With a rectangular pad mask, the three calls succeed and
  the final mask has shape (batch, heads, total, total). At every batch element b, head h,
  query row i and key column j: the final entry is the conjunction of the group mask
  entry (the value the double loop writes at (i, j)) and the pad mask entry; the pad mask
  entry depends neither on the head nor on the row: it is 1 on a prefix column and the
  pad-mask value of batch element b at the timestep of the column otherwise. So a column
  whose descriptor has timestep t has pad entry 1 when the pad mask is true at (b, t),
  and pad entry 0 and final entry false when it is false.
\<close>

theorem padding_exclusion_as_keys:
  assumes rect: "\<forall>row \<in> set pad_mask. length row = shape1 pad_mask"
    and b: "b < length pad_mask" and h: "h < num_attention_heads self"
    and i: "i < total_tokens pg tg (shape1 pad_mask)"
    and j: "j < total_tokens pg tg (shape1 pad_mask)"
  shows "\<exists>a p m.
           group_attention_mask pg tg (shape1 pad_mask) = Inr a \<and>
           generate_pad_attention_mask self pad_mask (tokens_per_time_step tg) (tokens_for_prefix pg) = Inr p \<and>
           generate_attention_mask self pg tg pad_mask = Inr m \<and>
           length m = length pad_mask \<and>
           length (m ! b) = num_attention_heads self \<and>
           length (m ! b ! h) = total_tokens pg tg (shape1 pad_mask) \<and>
           length (m ! b ! h ! i) = total_tokens pg tg (shape1 pad_mask) \<and>
           (m ! b ! h ! i ! j \<longleftrightarrow> a ! i ! j \<noteq> 0 \<and> p ! b ! h ! i ! j \<noteq> 0) \<and>
           mask_entry pg tg i j = Inr (a ! i ! j) \<and>
           p ! b ! h ! i ! j =
             (if j < tokens_for_prefix pg then 1
              else of_bool (pad_mask ! b ! ((j - tokens_for_prefix pg) div tokens_per_time_step tg))) \<and>
           (j < tokens_for_prefix pg \<longrightarrow> p ! b ! h ! i ! j = 1) \<and>
           (\<forall>t dj. t < shape1 pad_mask \<and>
                   get_token_description pg tg j = Inr dj \<and> timestep dj = int t
                   \<longrightarrow> p ! b ! h ! i ! j = of_bool (pad_mask ! b ! t) \<and>
                       (m ! b ! h ! i ! j \<longleftrightarrow> a ! i ! j \<noteq> 0 \<and> pad_mask ! b ! t)) \<and>
           (\<forall>t dj. t < shape1 pad_mask \<and> \<not> pad_mask ! b ! t \<and>
                   get_token_description pg tg j = Inr dj \<and> timestep dj = int t
                   \<longrightarrow> p ! b ! h ! i ! j = 0 \<and> \<not> m ! b ! h ! i ! j)"
proof -
  obtain a where a: "group_attention_mask pg tg (shape1 pad_mask) = Inr a"
    by (simp add: group_attention_mask_Inr)
  obtain p where p: "generate_pad_attention_mask self pad_mask (tokens_per_time_step tg) (tokens_for_prefix pg) = Inr p"
    using rect by (simp add: generate_pad_attention_mask_Inr)
  obtain m where m: "generate_attention_mask self pg tg pad_mask = Inr m"
    using rect by (simp add: generate_attention_mask_Inr)
  note nth = final_mask_nth[OF rect b h i j a p m]
  note shp = final_mask_shape[OF rect b h i m]
  have c1: "m ! b ! h ! i ! j \<longleftrightarrow> a ! i ! j \<noteq> 0 \<and> p ! b ! h ! i ! j \<noteq> 0"
    by (simp add: nth(3))
  have ce: "mask_entry pg tg i j = Inr (a ! i ! j)"
    using mask_entry_Inr[OF i j] by (simp add: nth(1))
  have c2: "j < tokens_for_prefix pg \<longrightarrow> p ! b ! h ! i ! j = 1"
    by (simp add: nth(2))
  have col: "p ! b ! h ! i ! j = of_bool (pad_mask ! b ! t)"
    if dj: "get_token_description pg tg j = Inr dj" "timestep dj = int t" for t dj
  proof -
    have "dj = descr pg tg j" using dj(1) get_token_description_Inr[OF j] by simp
    then have ts: "timestep (descr pg tg j) = int t" using dj(2) by simp
    then have nj: "\<not> j < tokens_for_prefix pg"
      by (auto simp: timestep_descr split: if_splits)
    with ts have "(j - tokens_for_prefix pg) div tokens_per_time_step tg = t"
      by (simp add: timestep_descr)
    with nj show ?thesis by (simp add: nth(2))
  qed
  have c3: "\<forall>t dj. t < shape1 pad_mask \<and>
                   get_token_description pg tg j = Inr dj \<and> timestep dj = int t
                   \<longrightarrow> p ! b ! h ! i ! j = of_bool (pad_mask ! b ! t) \<and>
                       (m ! b ! h ! i ! j \<longleftrightarrow> a ! i ! j \<noteq> 0 \<and> pad_mask ! b ! t)"
    using col c1 by auto
  have c4: "\<forall>t dj. t < shape1 pad_mask \<and> \<not> pad_mask ! b ! t \<and>
                   get_token_description pg tg j = Inr dj \<and> timestep dj = int t
                   \<longrightarrow> p ! b ! h ! i ! j = 0 \<and> \<not> m ! b ! h ! i ! j"
    using col c1 by auto
  from a p m shp c1 ce nth(2) c2 c3 c4 show ?thesis by blast
qed

theorem padding_exclusion_as_keys_witness:
  "\<exists>a p m.
     group_attention_mask [ex_task] [ex_obs] (shape1 [[True, False]]) = Inr a \<and>
     generate_pad_attention_mask ex_self [[True, False]]
        (tokens_per_time_step [ex_obs]) (tokens_for_prefix [ex_task]) = Inr p \<and>
     generate_attention_mask ex_self [ex_task] [ex_obs] [[True, False]] = Inr m \<and>
     a ! 5 ! 6 = 1 \<and> p ! 0 ! 7 ! 5 ! 6 = 0 \<and> \<not> m ! 0 ! 7 ! 5 ! 6 \<and>
     a ! 3 ! 4 = 1 \<and> p ! 0 ! 7 ! 3 ! 4 = 1 \<and> m ! 0 ! 7 ! 3 ! 4 \<and>
     p ! 0 ! 7 ! 3 ! 1 = 1"
proof -
  have rect: "\<forall>row \<in> set [[True, False]]. length row = shape1 [[True, False]]"
    by (simp add: shape1_def)
  have sh: "shape1 [[True, False]] = 2" by (simp add: shape1_def)
  have b: "0 < length [[True, False]]" by simp
  have h: "7 < num_attention_heads ex_self" by (simp add: ex_self_def)
  have tot: "total_tokens [ex_task] [ex_obs] (shape1 [[True, False]]) = 7"
    unfolding sh by code_simp
  have tfp: "tokens_for_prefix [ex_task] = 3" by code_simp
  have i5: "5 < total_tokens [ex_task] [ex_obs] (shape1 [[True, False]])"
    and j6: "6 < total_tokens [ex_task] [ex_obs] (shape1 [[True, False]])"
    and i3: "3 < total_tokens [ex_task] [ex_obs] (shape1 [[True, False]])"
    and j4: "4 < total_tokens [ex_task] [ex_obs] (shape1 [[True, False]])"
    and j1: "1 < total_tokens [ex_task] [ex_obs] (shape1 [[True, False]])"
    unfolding tot by simp_all
  have d6: "get_token_description [ex_task] [ex_obs] 6 = Inr (TokenMetadata ''obs'' 1 [''task''])"
    and d4: "get_token_description [ex_task] [ex_obs] 4 = Inr (TokenMetadata ''obs'' 0 [''task''])"
    by code_simp+
  have e56: "mask_entry [ex_task] [ex_obs] 5 6 = Inr 1"
    and e34: "mask_entry [ex_task] [ex_obs] 3 4 = Inr 1"
    by code_simp+
  from padding_exclusion_as_keys[OF rect b h i5 j6]
  obtain a p m where
    a: "group_attention_mask [ex_task] [ex_obs] (shape1 [[True, False]]) = Inr a" and
    p: "generate_pad_attention_mask ex_self [[True, False]]
          (tokens_per_time_step [ex_obs]) (tokens_for_prefix [ex_task]) = Inr p" and
    m: "generate_attention_mask ex_self [ex_task] [ex_obs] [[True, False]] = Inr m" and
    a56: "mask_entry [ex_task] [ex_obs] 5 6 = Inr (a ! 5 ! 6)" and
    c56: "\<forall>t dj. t < shape1 [[True, False]] \<and> \<not> [[True, False]] ! 0 ! t \<and>
           get_token_description [ex_task] [ex_obs] 6 = Inr dj \<and> timestep dj = int t
           \<longrightarrow> p ! 0 ! 7 ! 5 ! 6 = 0 \<and> \<not> m ! 0 ! 7 ! 5 ! 6"
    by blast
  from padding_exclusion_as_keys[OF rect b h i3 j4]
  obtain a' p' m' where
    a': "group_attention_mask [ex_task] [ex_obs] (shape1 [[True, False]]) = Inr a'" and
    p': "generate_pad_attention_mask ex_self [[True, False]]
          (tokens_per_time_step [ex_obs]) (tokens_for_prefix [ex_task]) = Inr p'" and
    m': "generate_attention_mask ex_self [ex_task] [ex_obs] [[True, False]] = Inr m'" and
    a34: "mask_entry [ex_task] [ex_obs] 3 4 = Inr (a' ! 3 ! 4)" and
    c34: "\<forall>t dj. t < shape1 [[True, False]] \<and>
           get_token_description [ex_task] [ex_obs] 4 = Inr dj \<and> timestep dj = int t
           \<longrightarrow> p' ! 0 ! 7 ! 3 ! 4 = of_bool ([[True, False]] ! 0 ! t) \<and>
               (m' ! 0 ! 7 ! 3 ! 4 \<longleftrightarrow> a' ! 3 ! 4 \<noteq> 0 \<and> [[True, False]] ! 0 ! t)"
    by blast
  from padding_exclusion_as_keys[OF rect b h i3 j1]
  obtain p'' where
    p'': "generate_pad_attention_mask ex_self [[True, False]]
          (tokens_per_time_step [ex_obs]) (tokens_for_prefix [ex_task]) = Inr p''" and
    c31: "1 < tokens_for_prefix [ex_task] \<longrightarrow> p'' ! 0 ! 7 ! 3 ! 1 = 1"
    by blast
  have eq: "a' = a" "p' = p" "m' = m" "p'' = p"
    using a a' p p' m m' p'' by simp_all
  have x56: "a ! 5 ! 6 = 1" using a56 e56 by simp
  have x34: "a ! 3 ! 4 = 1" using a34 e34 eq by simp
  have y56: "p ! 0 ! 7 ! 5 ! 6 = 0 \<and> \<not> m ! 0 ! 7 ! 5 ! 6"
    using c56[rule_format, of 1 "TokenMetadata ''obs'' 1 [''task'']"] d6 by (simp add: sh)
  have y34: "p ! 0 ! 7 ! 3 ! 4 = 1 \<and> m ! 0 ! 7 ! 3 ! 4"
    using c34[rule_format, of 0 "TokenMetadata ''obs'' 0 [''task'']"] d4 x34 eq by (simp add: sh)
  have y31: "p ! 0 ! 7 ! 3 ! 1 = 1" using c31 eq by (simp add: tfp)
  from a p m x56 x34 y56 y34 y31 show ?thesis by blast
qed

text \<open>
  C5. Self-visibility. The diagonal entry of the final mask at position i is true for
  every batch element and head, when i is a prefix position (timestep - 1) or the pad
  mask is true at the timestep of i.
\<close>

theorem self_visibility:
  assumes rect: "\<forall>row \<in> set pad_mask. length row = shape1 pad_mask"
    and b: "b < length pad_mask" and h: "h < num_attention_heads self"
    and i: "i < total_tokens pg tg (shape1 pad_mask)"
    and di: "get_token_description pg tg i = Inr di"
    and valid: "timestep di = - 1 \<or> pad_mask ! b ! nat (timestep di)"
  shows "\<exists>m. generate_attention_mask self pg tg pad_mask = Inr m \<and> m ! b ! h ! i ! i"
proof -
  obtain a where a: "group_attention_mask pg tg (shape1 pad_mask) = Inr a"
    by (simp add: group_attention_mask_Inr)
  obtain p where p: "generate_pad_attention_mask self pad_mask (tokens_per_time_step tg) (tokens_for_prefix pg) = Inr p"
    using rect by (simp add: generate_pad_attention_mask_Inr)
  obtain m where m: "generate_attention_mask self pg tg pad_mask = Inr m"
    using rect by (simp add: generate_attention_mask_Inr)
  note nth = final_mask_nth[OF rect b h i i a p m]
  have d: "di = descr pg tg i" using di get_token_description_Inr[OF i] by simp
  have "a ! i ! i = 1" by (simp add: nth(1) mask_value_self)
  moreover have "p ! b ! h ! i ! i = 1"
    using valid unfolding d by (auto simp: nth(2) timestep_descr split: if_splits)
  ultimately have "m ! b ! h ! i ! i" by (simp add: nth(3))
  with m show ?thesis by blast
qed

theorem self_visibility_witness:
  "\<exists>m. generate_attention_mask ex_self [ex_task] [ex_obs] [[True, False]] = Inr m \<and>
       m ! 0 ! 7 ! 4 ! 4 \<and> m ! 0 ! 0 ! 1 ! 1"
proof -
  have rect: "\<forall>row \<in> set [[True, False]]. length row = shape1 [[True, False]]"
    by (simp add: shape1_def)
  have sh: "shape1 [[True, False]] = 2" by (simp add: shape1_def)
  have tot: "total_tokens [ex_task] [ex_obs] 2 = 7" by code_simp
  have d4: "get_token_description [ex_task] [ex_obs] 4 = Inr (TokenMetadata ''obs'' 0 [''task''])"
    and d1: "get_token_description [ex_task] [ex_obs] 1 = Inr (TokenMetadata ''task'' (- 1) [])"
    by code_simp+
  have h: "7 < num_attention_heads ex_self" "0 < num_attention_heads ex_self"
    by (simp_all add: ex_self_def)
  have "\<exists>m. generate_attention_mask ex_self [ex_task] [ex_obs] [[True, False]] = Inr m \<and> m ! 0 ! 7 ! 4 ! 4"
    using self_visibility[OF rect, of 0 7 ex_self 4 "[ex_task]" "[ex_obs]", OF _ h(1) _ d4]
    by (simp add: sh tot)
  moreover
  have "\<exists>m. generate_attention_mask ex_self [ex_task] [ex_obs] [[True, False]] = Inr m \<and> m ! 0 ! 0 ! 1 ! 1"
    using self_visibility[OF rect, of 0 0 ex_self 1 "[ex_task]" "[ex_obs]", OF _ h(2) _ d1]
    by (simp add: sh tot)
  ultimately show ?thesis by auto
qed

text \<open>The rule of the loop body, for any two descriptors: the written value is non-zero
  exactly when the groups are the same or the key's group is attended to, and the
  query's timestep is at most the key's.\<close>

lemma mask_value_nonzero_iff:
  "mask_value di dj \<noteq> 0 \<longleftrightarrow>
     (group_name di = group_name dj \<or> group_name dj \<in> set (meta_attends_to di))
     \<and> timestep di \<le> timestep dj"
  by (simp add: mask_value_def)

text \<open>
  C1. The visibility rule, evaluated on the example (positions 0-2 are "task" with
  timestep - 1, 3-4 are "obs" at timestep 0, 5-6 are "obs" at timestep 1). The rule asks
  for timestep(i) >= timestep(j); the loop compares with <=. So query 3 (obs at 0) does
  not see key 0 (task), although "obs" attends to "task" and 0 >= - 1; query 3 sees key 5
  (obs at 1), a later timestep; and query 5 does not see key 3, an earlier one.
\<close>

theorem visibility_rule_on_example:
  "get_token_description [ex_task] [ex_obs] 0 = Inr (TokenMetadata ''task'' (- 1) []) \<and>
   get_token_description [ex_task] [ex_obs] 3 = Inr (TokenMetadata ''obs'' 0 [''task'']) \<and>
   get_token_description [ex_task] [ex_obs] 5 = Inr (TokenMetadata ''obs'' 1 [''task'']) \<and>
   mask_entry [ex_task] [ex_obs] 3 0 = Inr 0 \<and>
   mask_entry [ex_task] [ex_obs] 3 5 = Inr 1 \<and>
   mask_entry [ex_task] [ex_obs] 5 3 = Inr 0"
  by code_simp

text \<open>
  C2. The end-to-end example: 7 tokens, and the mask of every head. Rows 0-2 (task) see
  exactly the task columns; rows 3-4 (obs at 0) see obs at 0 and obs at 1 and no task
  column; rows 5-6 (obs at 1) see obs at 1 only.
\<close>

theorem end_to_end_example_mask:
  "total_tokens [ex_task] [ex_obs] (shape1 [[True, True]]) = 7 \<and>
   generate_attention_mask ex_self [ex_task] [ex_obs] [[True, True]] =
     Inr [replicate 8
       [[True, True, True, False, False, False, False],
        [True, True, True, False, False, False, False],
        [True, True, True, False, False, False, False],
        [False, False, False, True, True, True, True],
        [False, False, False, True, True, True, True],
        [False, False, False, False, False, True, True],
        [False, False, False, False, False, True, True]]]"
  by code_simp

section \<open>Properties of the forward pass\<close>

lemma split_from_cumsum_from:
  "split_from (acc + sum_list xs) acc (cumsum_from acc xs) = xs @ [0]"
proof (induction xs arbitrary: acc)
  case Nil
  then show ?case by simp
next
  case (Cons x xs)
  have "split_from (acc + x + sum_list xs) (acc + x) (cumsum_from (acc + x) xs) = xs @ [0]"
    by (rule Cons.IH)
  then show ?case by (simp add: add.assoc)
qed

lemma split_from_cumsum: "split_from (sum_list xs) 0 (cumsum xs) = xs @ [0]"
  using split_from_cumsum_from[of 0 xs] by (simp add: cumsum_def)

lemma map2_replace_tokens:
  "map2 (\<lambda>g e. g\<lparr>tokens := e\<rparr>) gs (map f (map n gs @ [z])) = map (\<lambda>g. g\<lparr>tokens := f (n g)\<rparr>) gs"
  by (induction gs) simp_all

lemma concatenate_axis1_Inr:
  assumes "shapes \<noteq> []" "\<forall>s \<in> set shapes. fst s = b \<and> snd (snd s) = d"
  shows "concatenate_axis1 shapes = Inr (b, sum_list (map (\<lambda>s. fst (snd s)) shapes), d)"
proof -
  obtain s rest where sh: "shapes = s # rest" using assms(1) by (cases shapes) auto
  obtain b0 n0 d0 where s: "s = (b0, n0, d0)" by (cases s) auto
  have "list_all (\<lambda>(b', n', d'). b' = b \<and> d' = d) rest"
    using assms(2) sh by (auto simp: list_all_iff)
  moreover have "b0 = b" "d0 = d" using assms(2) sh s by auto
  moreover have "(\<lambda>(b', n', d'). n') = (\<lambda>s::nat \<times> nat \<times> nat. fst (snd s))" by auto
  ultimately show ?thesis by (simp add: concatenate_axis1_def sh s)
qed

lemma concatenate_axis2_Inr:
  assumes "shapes \<noteq> []"
    "\<forall>s \<in> set shapes. fst s = b \<and> fst (snd s) = h \<and> snd (snd (snd s)) = d"
  shows "concatenate_axis2 shapes = Inr (b, h, sum_list (map (\<lambda>s. fst (snd (snd s))) shapes), d)"
proof -
  obtain s rest where sh: "shapes = s # rest" using assms(1) by (cases shapes) auto
  obtain b0 h0 n0 d0 where s: "s = (b0, h0, n0, d0)" by (cases s) auto
  have "list_all (\<lambda>(b', h', n', d'). b' = b \<and> h' = h \<and> d' = d) rest"
    using assms(2) sh by (auto simp: list_all_iff)
  moreover have "b0 = b" "h0 = h" "d0 = d" using assms(2) sh s by auto
  moreover have "(\<lambda>(b', h', n', d'). n') = (\<lambda>s::nat \<times> nat \<times> nat \<times> nat. fst (snd (snd s)))" by auto
  ultimately show ?thesis by (simp add: concatenate_axis2_def sh s)
qed

lemma assemble_input_tokens_Inr:
  assumes tg: "tg \<noteq> []"
    and pgs: "\<forall>g \<in> set pg. fst (tokens g) = b \<and> snd (snd (tokens g)) = d"
    and tgs: "\<forall>g \<in> set tg. fst (tokens g) = b \<and> fst (snd (tokens g)) = hz
                \<and> snd (snd (snd (tokens g))) = d"
  shows "assemble_input_tokens pg tg =
           Inr (b, tokens_for_prefix pg + hz * tokens_per_time_step tg, d)"
proof -
  have c2: "concatenate_axis2 (map tokens tg) = Inr (b, hz, tokens_per_time_step tg, d)"
    using concatenate_axis2_Inr[of "map tokens tg" b hz d] tg tgs
    by (simp add: tokens_per_time_step_def tokens_per_timestep_group_def comp_def)
  have pre: "(if length pg > 0 then concatenate_axis1 (map tokens pg)
            else (case list_index tg 0 of
                    Inl e \<Rightarrow> Inl e
                  | Inr g \<Rightarrow> (case tokens g of (b, h, n, d) \<Rightarrow> Inr (b, 0, d))))
         = Inr (b, tokens_for_prefix pg, d)"
  proof (cases "pg = []")
    case True
    obtain g rest where t: "tg = g # rest" using tg by (cases tg) auto
    obtain b0 h0 n0 d0 where g: "tokens g = (b0, h0, n0, d0)" by (cases "tokens g") auto
    have "b0 = b" "d0 = d" using tgs t g by auto
    then show ?thesis using True t g
      by (simp add: list_index_def tokens_for_prefix_def tokens_per_prefix_group_def)
  next
    case False
    then show ?thesis
      using concatenate_axis1_Inr[of "map tokens pg" b d] pgs
      by (simp add: tokens_for_prefix_def tokens_per_prefix_group_def comp_def)
  qed
  show ?thesis
    unfolding assemble_input_tokens_def pre c2
    by (simp add: concatenate_axis1_def)
qed

lemma check_horizon_Inr:
  assumes "tg \<noteq> []" "\<forall>g \<in> set tg. fst (snd (tokens g)) = hz"
  shows "check_horizon tg = Inr hz"
proof -
  obtain g rest where t: "tg = g # rest" using assms(1) by (cases tg) auto
  have "list_all (\<lambda>g. fst (snd (tokens g)) = hz) tg"
    using assms(2) by (simp add: list_all_iff)
  moreover have "fst (snd (tokens g)) = hz" using assms(2) t by simp
  moreover have "list_index tg 0 = Inr g" using t by (simp add: list_index_def)
  ultimately show ?thesis
    unfolding check_horizon_def by (simp add: Let_def)
qed

lemma check_horizon_mismatch:
  assumes "g1 \<in> set tg" "g2 \<in> set tg"
    "fst (snd (tokens g1)) \<noteq> fst (snd (tokens g2))"
  shows "check_horizon tg = Inl AssertionError"
proof -
  obtain g rest where t: "tg = g # rest" using assms(1) by (cases tg) auto
  have "\<not> (\<forall>x \<in> set tg. fst (snd (tokens x)) = fst (snd (tokens g)))"
    using assms by metis
  then have "\<not> list_all (\<lambda>x. fst (snd (tokens x)) = fst (snd (tokens g))) tg"
    by (simp add: list_all_iff)
  moreover have "list_index tg 0 = Inr g" using t by (simp add: list_index_def)
  ultimately show ?thesis
    unfolding check_horizon_def by (simp add: Let_def)
qed

lemma disassemble_Inr:
  assumes "0 < hz"
  shows "disassemble pg tg hz (b, tokens_for_prefix pg + hz * tokens_per_time_step tg, d') =
     Inr (map (\<lambda>g. g\<lparr>tokens := (b, fst (snd (tokens g)), d')\<rparr>) pg,
          map (\<lambda>g. g\<lparr>tokens := (b, hz, fst (snd (snd (tokens g))), d')\<rparr>) tg)"
proof -
  have r: "rearrange_unfold (b, hz * tokens_per_time_step tg, d') hz
             = Inr (b, hz, tokens_per_time_step tg, d')"
    using assms by (simp add: rearrange_unfold_def)
  have s1: "split_tokens_axis1 (b, tokens_for_prefix pg, d') (tokens_per_prefix_group pg)
          = map (\<lambda>n. (b, n, d')) (map (\<lambda>g. fst (snd (tokens g))) pg @ [0])"
    using split_from_cumsum[of "tokens_per_prefix_group pg"]
    by (simp add: split_tokens_axis1_def tokens_for_prefix_def tokens_per_prefix_group_def)
  have s2: "split_tokens_axis2 (b, hz, tokens_per_time_step tg, d') (tokens_per_timestep_group tg)
          = map (\<lambda>n. (b, hz, n, d')) (map (\<lambda>g. fst (snd (snd (tokens g)))) tg @ [0])"
    using split_from_cumsum[of "tokens_per_timestep_group tg"]
    by (simp add: split_tokens_axis2_def tokens_per_time_step_def tokens_per_timestep_group_def)
  have p: "map2 (\<lambda>g embeddings. g\<lparr>tokens := embeddings\<rparr>) pg
              (split_tokens_axis1 (b, tokens_for_prefix pg, d') (tokens_per_prefix_group pg))
           = map (\<lambda>g. g\<lparr>tokens := (b, fst (snd (tokens g)), d')\<rparr>) pg"
    unfolding s1 by (rule map2_replace_tokens)
  have t: "map2 (\<lambda>g embeddings. g\<lparr>tokens := embeddings\<rparr>) tg
              (split_tokens_axis2 (b, hz, tokens_per_time_step tg, d') (tokens_per_timestep_group tg))
           = map (\<lambda>g. g\<lparr>tokens := (b, hz, fst (snd (snd (tokens g))), d')\<rparr>) tg"
    unfolding s2 by (rule map2_replace_tokens)
  show ?thesis
  proof (cases "pg = []")
    case True
    then show ?thesis
      unfolding disassemble_def
      by (simp add: tokens_for_prefix_def[symmetric] Let_def r t)
  next
    case False
    then show ?thesis
      unfolding disassemble_def
      by (simp add: tokens_for_prefix_def[symmetric] Let_def r p t)
  qed
qed

text \<open>
  C6 (as amended). Shape round trip. With at least one timestep group, all groups of
  batch size b and embedding width d, all timestep groups of horizon hz >= 1, a
  rectangular pad mask and an encoder that maps every (b, s, d) input to a (b, s, d_out)
  output, the forward pass returns one output group per input group, in the same order,
  with the same name, \<open>attends_to\<close> and token count: a prefix output of shape
  (b, n_tokens, d_out) and a timestep output of shape (b, hz, n_tokens, d_out).
\<close>

theorem shape_round_trip:
  assumes tg: "tg \<noteq> []"
    and pgs: "\<forall>g \<in> set pg. fst (tokens g) = b \<and> snd (snd (tokens g)) = d"
    and tgs: "\<forall>g \<in> set tg. fst (tokens g) = b \<and> fst (snd (tokens g)) = hz
                \<and> snd (snd (snd (tokens g))) = d"
    and hz: "0 < hz"
    and rect: "\<forall>row \<in> set pad_mask. length row = shape1 pad_mask"
    and enc: "\<forall>s m. transformer (b, s, d) m train = Inr (b, s, d_out)"
  shows "BlockTransformer_call self transformer pg tg pad_mask train =
     Inr (map (\<lambda>g. g\<lparr>tokens := (b, fst (snd (tokens g)), d_out)\<rparr>) pg,
          map (\<lambda>g. g\<lparr>tokens := (b, hz, fst (snd (snd (tokens g))), d_out)\<rparr>) tg)"
proof -
  have c: "check_horizon tg = Inr hz"
    using tg tgs by (intro check_horizon_Inr) auto
  obtain m where m: "generate_attention_mask self pg tg pad_mask = Inr m"
    using rect by (simp add: generate_attention_mask_Inr)
  have a: "assemble_input_tokens pg tg =
             Inr (b, tokens_for_prefix pg + hz * tokens_per_time_step tg, d)"
    using tg pgs tgs by (rule assemble_input_tokens_Inr)
  have e: "transformer (b, tokens_for_prefix pg + hz * tokens_per_time_step tg, d) m train
             = Inr (b, tokens_for_prefix pg + hz * tokens_per_time_step tg, d_out)"
    using enc by blast
  show ?thesis
    unfolding BlockTransformer_call_def
    by (simp add: c m a e disassemble_Inr[OF hz])
qed

theorem shape_round_trip_witness:
  "BlockTransformer_call ex_self ex_transformer [ex_task] [ex_obs, ex_act] [[True, True]] False =
     Inr ([\<lparr>name = ''task'', tokens = (1, 3, 8), attends_to = []\<rparr>],
          [\<lparr>name = ''obs'', tokens = (1, 2, 2, 8), attends_to = [''task'']\<rparr>,
           \<lparr>name = ''act'', tokens = (1, 2, 1, 8), attends_to = [''task'', ''obs'']\<rparr>]) \<and>
   BlockTransformer_call ex_self ex_transformer [] [ex_obs] [[True, True]] False =
     Inr ([], [\<lparr>name = ''obs'', tokens = (1, 2, 2, 8), attends_to = [''task'']\<rparr>])"
proof -
  have rect: "\<forall>row \<in> set [[True, True]]. length row = shape1 [[True, True]]"
    by (simp add: shape1_def)
  have enc: "\<forall>s m. ex_transformer (1, s, 4) m False = Inr (1, s, 8)"
    by (simp add: ex_transformer_def)
  have "BlockTransformer_call ex_self ex_transformer [ex_task] [ex_obs, ex_act] [[True, True]] False =
     Inr (map (\<lambda>g. g\<lparr>tokens := (1, fst (snd (tokens g)), 8)\<rparr>) [ex_task],
          map (\<lambda>g. g\<lparr>tokens := (1, 2, fst (snd (snd (tokens g))), 8)\<rparr>) [ex_obs, ex_act])"
    using rect enc
      shape_round_trip[where transformer = ex_transformer and b = 1 and d = 4 and d_out = 8
        and hz = 2 and train = False and pad_mask = "[[True, True]]" and self = ex_self
        and pg = "[ex_task]" and tg = "[ex_obs, ex_act]"]
    by (simp add: ex_task_def ex_obs_def ex_act_def)
  moreover
  have "BlockTransformer_call ex_self ex_transformer [] [ex_obs] [[True, True]] False =
     Inr (map (\<lambda>g. g\<lparr>tokens := (1, fst (snd (tokens g)), 8)\<rparr>) [],
          map (\<lambda>g. g\<lparr>tokens := (1, 2, fst (snd (snd (tokens g))), 8)\<rparr>) [ex_obs])"
    using rect enc
      shape_round_trip[where transformer = ex_transformer and b = 1 and d = 4 and d_out = 8
        and hz = 2 and train = False and pad_mask = "[[True, True]]" and self = ex_self
        and pg = "[]" and tg = "[ex_obs]"]
    by (simp add: ex_obs_def)
  ultimately show ?thesis
    by (simp add: ex_task_def ex_obs_def ex_act_def)
qed

text \<open>
  The claim as stated, for every configuration, fails: with no timestep group the call
  raises IndexError at \<open>timestep_groups[0]\<close> (and the assembly alone has nothing to
  concatenate); with horizon 0 the division of the sequence by the horizon fails.
\<close>

theorem shape_round_trip_counterexample:
  "BlockTransformer_call ex_self ex_transformer [ex_task] [] [[True, True]] False = Inl IndexError \<and>
   assemble_input_tokens [ex_task] [] = Inl ValueError \<and>
   BlockTransformer_call ex_self ex_transformer [ex_task] [ex_obs_h0] [[]] False
     = Inl ZeroDivisionError"
  by code_simp

text \<open>
  C7. Horizon precondition. When two timestep groups differ in horizon, the check of
  lines 112-113 raises AssertionError, and so does the forward pass, for every prefix
  groups, pad mask, transformer and train flag: the error precedes the construction of
  the mask and the transformer, and there is no output. When all timestep groups have
  horizon hz, the check does not raise AssertionError, and with at least one group it
  returns hz.
\<close>

theorem horizon_precondition:
  "(g1 \<in> set tg \<and> g2 \<in> set tg \<and> fst (snd (tokens g1)) \<noteq> fst (snd (tokens g2)) \<longrightarrow>
      check_horizon tg = Inl AssertionError \<and>
      BlockTransformer_call self transformer pg tg pad_mask train = Inl AssertionError) \<and>
   ((\<forall>g \<in> set tg. fst (snd (tokens g)) = hz) \<longrightarrow>
      check_horizon tg \<noteq> Inl AssertionError \<and> (tg \<noteq> [] \<longrightarrow> check_horizon tg = Inr hz))"
proof (intro conjI impI)
  assume h: "g1 \<in> set tg \<and> g2 \<in> set tg \<and> fst (snd (tokens g1)) \<noteq> fst (snd (tokens g2))"
  then show c: "check_horizon tg = Inl AssertionError"
    using check_horizon_mismatch[of g1 tg g2] by blast
  then show "BlockTransformer_call self transformer pg tg pad_mask train = Inl AssertionError"
    by (simp add: BlockTransformer_call_def)
next
  assume same: "\<forall>g \<in> set tg. fst (snd (tokens g)) = hz"
  show "check_horizon tg \<noteq> Inl AssertionError"
  proof (cases "tg = []")
    case True
    then show ?thesis by (simp add: check_horizon_def list_index_def)
  next
    case False
    then show ?thesis using check_horizon_Inr[OF False same] by simp
  qed
  show "check_horizon tg = Inr hz" if "tg \<noteq> []"
    using check_horizon_Inr[OF that same] .
qed

theorem horizon_precondition_witness:
  "check_horizon [ex_obs, ex_act_h3] = Inl AssertionError \<and>
   BlockTransformer_call ex_self failing_transformer [ex_task] [ex_obs, ex_act_h3]
      [[True], [True, False]] False = Inl AssertionError \<and>
   generate_attention_mask ex_self [ex_task] [ex_obs, ex_act_h3] [[True], [True, False]]
      = Inl ShapeError \<and>
   check_horizon [ex_obs, ex_act] = Inr 2"
proof -
  have "check_horizon [ex_obs, ex_act_h3] = Inl AssertionError \<and>
   BlockTransformer_call ex_self failing_transformer [ex_task] [ex_obs, ex_act_h3]
      [[True], [True, False]] False = Inl AssertionError"
    using horizon_precondition[of ex_obs "[ex_obs, ex_act_h3]" ex_act_h3 ex_self
        failing_transformer "[ex_task]" "[[True], [True, False]]" False 0]
    by (simp add: ex_obs_def ex_act_h3_def)
  moreover have "check_horizon [ex_obs, ex_act] = Inr 2"
    using horizon_precondition[of ex_obs "[ex_obs, ex_act]" ex_act ex_self
        failing_transformer "[ex_task]" "[[True, True]]" False 2]
    by (simp add: ex_obs_def ex_act_def)
  moreover have "generate_attention_mask ex_self [ex_task] [ex_obs, ex_act_h3] [[True], [True, False]]
      = Inl ShapeError"
    by code_simp
  ultimately show ?thesis by blast
qed

section \<open>Properties of the mixture resolver\<close>

lemma dedup_loop_first_occurrences:
  "dedup_loop xs filtered included =
     filtered @ first_occurrences (filter (\<lambda>e. fst e \<notin> set included) xs)"
proof (induction xs arbitrary: filtered included)
  case Nil
  then show ?case by simp
next
  case (Cons e xs)
  obtain n w where e: "e = (n, w)" by (cases e) auto
  show ?case
  proof (cases "n \<in> set included")
    case True
    then show ?thesis using Cons.IH[of filtered included] by (simp add: e)
  next
    case False
    have "filter (\<lambda>e. fst e \<noteq> n) (filter (\<lambda>e. fst e \<notin> set included) xs)
            = filter (\<lambda>e. fst e \<notin> set (included @ [n])) xs"
      by (induction xs) auto
    then show ?thesis
      using False Cons.IH[of "filtered @ [(n, w)]" "included @ [n]"] by (simp add: e)
  qed
qed

lemma dedup_loop_eq: "dedup_loop xs [] [] = first_occurrences xs"
  by (simp add: dedup_loop_first_occurrences)

lemma set_first_occurrences: "set (first_occurrences xs) \<subseteq> set xs"
  by (induction xs rule: first_occurrences.induct) auto

lemma fst_set_first_occurrences: "fst ` set (first_occurrences xs) = fst ` set xs"
proof (induction xs rule: first_occurrences.induct)
  case 1
  then show ?case by simp
next
  case (2 n w rest)
  have "fst ` set rest \<subseteq> insert n (fst ` set (filter (\<lambda>e. fst e \<noteq> n) rest))"
    by force
  moreover have "fst ` set (filter (\<lambda>e. fst e \<noteq> n) rest) \<subseteq> fst ` set rest"
    by force
  ultimately show ?case using 2 by auto
qed

lemma distinct_first_occurrences: "distinct (map fst (first_occurrences xs))"
proof (induction xs rule: first_occurrences.induct)
  case 1
  then show ?case by simp
next
  case (2 n w rest)
  have "n \<notin> fst ` set (first_occurrences (filter (\<lambda>e. fst e \<noteq> n) rest))"
    using set_first_occurrences[of "filter (\<lambda>e. fst e \<noteq> n) rest"] by auto
  with 2 show ?case by simp
qed

lemma map_of_filter_neq:
  "k \<noteq> n \<Longrightarrow> map_of (filter (\<lambda>e. fst e \<noteq> n) xs) k = map_of xs k"
  by (induction xs) auto

lemma map_of_first_occurrences: "map_of (first_occurrences xs) = map_of xs"
proof (induction xs rule: first_occurrences.induct)
  case 1
  then show ?case by simp
next
  case (2 n w rest)
  show ?case
  proof
    fix k
    show "map_of (first_occurrences ((n, w) # rest)) k = map_of ((n, w) # rest) k"
      using 2 by (simp add: map_of_filter_neq)
  qed
qed

lemma cfg_name_resolved_config [simp]:
  "cfg_name (resolved_config registry data_dir n3 nw ld lp dataset) = dataset"
  by (simp add: resolved_config_def Let_def)

lemma resolve_loop_supported:
  assumes "\<forall>e \<in> set xs. \<exists>kw. registry (fst e) = Some kw \<and> action_encoding kw = EEF_POS"
  shows "resolve_loop registry data_dir n3 nw ld lp xs acc ws =
           Inr (acc @ map (\<lambda>e. resolved_config registry data_dir n3 nw ld lp (fst e)) xs,
                ws @ map snd xs)"
  using assms
proof (induction xs arbitrary: acc ws)
  case Nil
  then show ?case by simp
next
  case (Cons e xs)
  obtain n w where e: "e = (n, w)" by (cases e) auto
  obtain kw where kw: "registry n = Some kw" "action_encoding kw = EEF_POS"
    using Cons.prems e by auto
  have "\<forall>e \<in> set xs. \<exists>kw. registry (fst e) = Some kw \<and> action_encoding kw = EEF_POS"
    using Cons.prems by simp
  from Cons.IH[OF this] show ?case
    by (simp add: e kw resolved_config_def)
qed

lemma resolve_loop_member:
  assumes "resolve_loop registry data_dir n3 nw ld lp xs acc ws = Inr (cfgs, ws')"
    and "cfg \<in> set cfgs"
  shows "cfg \<in> set acc \<or>
         (\<exists>e \<in> set xs. \<exists>kw. registry (fst e) = Some kw \<and> cfg_name cfg = fst e \<and>
             cfg_image_obs_keys cfg = trim_keys (image_obs_keys kw) n3 nw)"
  using assms
proof (induction xs arbitrary: acc ws)
  case Nil
  then show ?case by simp
next
  case (Cons e xs)
  obtain n w where e: "e = (n, w)" by (cases e) auto
  show ?case
  proof (cases "registry n")
    case None
    with Cons.prems show ?thesis by (simp add: e)
  next
    case (Some kw)
    show ?thesis
    proof (cases "action_encoding kw = EEF_POS")
      case False
      with Cons.prems Some
      have "resolve_loop registry data_dir n3 nw ld lp xs acc ws = Inr (cfgs, ws')"
        by (simp add: e)
      from Cons.IH[OF this Cons.prems(2)] show ?thesis by auto
    next
      case True
      let ?c = "\<lparr>cfg_name = n, cfg_data_dir = data_dir,
                   cfg_action_encoding = action_encoding kw,
                   cfg_image_obs_keys = trim_keys (image_obs_keys kw) n3 nw,
                   cfg_depth_obs_keys =
                     (if ld then Some (trim_keys (depth_obs_keys kw) n3 nw) else None),
                   cfg_state_obs_keys =
                     (if lp then Some (state_obs_keys kw) else None)\<rparr>"
      from Cons.prems Some True
      have "resolve_loop registry data_dir n3 nw ld lp xs (acc @ [?c]) (ws @ [w]) = Inr (cfgs, ws')"
        by (simp add: e)
      from Cons.IH[OF this Cons.prems(2)]
      consider "cfg \<in> set acc" | "cfg = ?c"
        | "\<exists>e \<in> set xs. \<exists>kw. registry (fst e) = Some kw \<and> cfg_name cfg = fst e \<and>
             cfg_image_obs_keys cfg = trim_keys (image_obs_keys kw) n3 nw"
        by auto
      then show ?thesis
      proof cases
        case 1
        then show ?thesis by simp
      next
        case 2
        then show ?thesis using Some by (auto simp: e)
      next
        case 3
        then show ?thesis by auto
      qed
    qed
  qed
qed

lemma trim_keys_nonneg:
  assumes "0 \<le> n3" "0 \<le> nw"
  shows "trim_keys keys n3 nw =
           take (nat n3) keys @ (if 0 < nw then drop (length keys - nat nw) keys else [])"
  using assms by (auto simp: trim_keys_def slice_to_def slice_from_def)

text \<open>
  C8. Mixture deduplication, first occurrence wins. With deduplicate = true and every
  name of the mix registered with the supported encoding, the resolver returns a config
  list and a weight list of equal length whose (name, weight) pairs, in order, are the
  first occurrences of the mix: one entry per name, each with the weight of the first
  occurrence of its name.
\<close>

theorem mixture_deduplication_first_wins:
  assumes sup: "\<forall>e \<in> set data_mix. \<exists>kw. registry (fst e) = Some kw \<and> action_encoding kw = EEF_POS"
  shows "\<exists>cfgs ws.
           make_oxe_dataset_kwargs_and_weights registry data_mix data_dir True n3 nw ld lp
             = Inr (cfgs, ws) \<and>
           length cfgs = length ws \<and>
           zip (map cfg_name cfgs) ws = first_occurrences data_mix \<and>
           distinct (map cfg_name cfgs) \<and>
           set (map cfg_name cfgs) = fst ` set data_mix \<and>
           map_of (zip (map cfg_name cfgs) ws) = map_of data_mix"
proof -
  let ?f = "first_occurrences data_mix"
  let ?cfgs = "map (\<lambda>e. resolved_config registry data_dir n3 nw ld lp (fst e)) ?f"
  have "\<forall>e \<in> set ?f. \<exists>kw. registry (fst e) = Some kw \<and> action_encoding kw = EEF_POS"
    using sup set_first_occurrences[of data_mix] by blast
  then have r: "make_oxe_dataset_kwargs_and_weights registry data_mix data_dir True n3 nw ld lp
             = Inr (?cfgs, map snd ?f)"
    by (simp add: make_oxe_dataset_kwargs_and_weights_def dedup_loop_eq resolve_loop_supported)
  have names: "map cfg_name ?cfgs = map fst ?f" by (simp add: comp_def)
  have z: "zip (map cfg_name ?cfgs) (map snd ?f) = ?f"
    unfolding names by (simp add: zip_map_fst_snd)
  have "distinct (map cfg_name ?cfgs)"
    unfolding names by (rule distinct_first_occurrences)
  moreover have "set (map cfg_name ?cfgs) = fst ` set data_mix"
    unfolding names by (simp add: fst_set_first_occurrences)
  moreover have "map_of (zip (map cfg_name ?cfgs) (map snd ?f)) = map_of data_mix"
    unfolding z by (rule map_of_first_occurrences)
  moreover have "length ?cfgs = length (map snd ?f)" by simp
  ultimately show ?thesis using r z by blast
qed

lemma ex_registry_a: "ex_registry ''a'' = Some ex_entry"
  by (simp add: ex_registry_def)

lemma ex_registry_b: "ex_registry ''b'' = Some ex_entry"
  by (simp add: ex_registry_def)

lemma ex_registry_cams: "ex_registry ''cams'' = Some ex_entry"
  by (simp add: ex_registry_def)

lemma ex_entry_encoding: "action_encoding ex_entry = EEF_POS"
  by (simp add: ex_entry_def)

lemma first_occurrences_ex_mix: "first_occurrences ex_mix = [(''a'', 1), (''b'', 2)]"
  by (simp add: ex_mix_def)

lemma ex_mix_supported: "\<forall>e \<in> set ex_mix.
               \<exists>kw. ex_registry (fst e) = Some kw \<and> action_encoding kw = EEF_POS"
  by (simp add: ex_mix_def ex_registry_a ex_registry_b ex_entry_encoding)

theorem mixture_deduplication_first_wins_witness:
  "ex_mix = [(''a'', 1), (''b'', 2), (''a'', 3)] \<and>
   (\<exists>cfgs. make_oxe_dataset_kwargs_and_weights ex_registry ex_mix ''gs://data'' True 1 0 True True
           = Inr (cfgs, [1, 2]) \<and>
          map cfg_name cfgs = [''a'', ''b''])"
proof -
  define dir where "dir = ''gs://data''"
  from mixture_deduplication_first_wins[OF ex_mix_supported, of dir 1 0 True True]
  obtain cfgs ws where
    r: "make_oxe_dataset_kwargs_and_weights ex_registry ex_mix dir True 1 0 True True
           = Inr (cfgs, ws)"
    and l: "length cfgs = length ws"
    and z: "zip (map cfg_name cfgs) ws = first_occurrences ex_mix"
    by blast
  have "map fst (zip (map cfg_name cfgs) ws) = map cfg_name cfgs"
    and "map snd (zip (map cfg_name cfgs) ws) = ws"
    using l by simp_all
  then have n: "map cfg_name cfgs = [''a'', ''b'']" and w: "ws = [1, 2]"
    unfolding z first_occurrences_ex_mix by simp_all
  have "\<exists>cfgs. make_oxe_dataset_kwargs_and_weights ex_registry ex_mix dir True 1 0 True True
           = Inr (cfgs, [1, 2]) \<and> map cfg_name cfgs = [''a'', ''b'']"
    using r n unfolding w by (intro exI[of _ cfgs] conjI)
  then show ?thesis unfolding dir_def by (simp add: ex_mix_def)
qed

lemma make_oxe_supported:
  assumes "\<forall>e \<in> set data_mix. \<exists>kw. registry (fst e) = Some kw \<and> action_encoding kw = EEF_POS"
  shows "make_oxe_dataset_kwargs_and_weights registry data_mix data_dir True n3 nw ld lp =
           Inr (map (\<lambda>e. resolved_config registry data_dir n3 nw ld lp (fst e))
                  (first_occurrences data_mix),
                map snd (first_occurrences data_mix))"
proof -
  have "\<forall>e \<in> set (first_occurrences data_mix).
          \<exists>kw. registry (fst e) = Some kw \<and> action_encoding kw = EEF_POS"
    using assms set_first_occurrences[of data_mix] by blast
  then show ?thesis
    by (simp add: make_oxe_dataset_kwargs_and_weights_def dedup_loop_eq resolve_loop_supported)
qed

text \<open>
  C9. Camera trimming. Every config the resolver returns belongs to a dataset of the mix,
  registered under its name, and for non-negative camera counts its image keys are the
  first n\_third\_person\_cameras registered keys followed, when n\_wrist\_cameras > 0, by
  the last n\_wrist\_cameras registered keys.
\<close>

theorem camera_trimming:
  assumes "make_oxe_dataset_kwargs_and_weights registry data_mix data_dir deduplicate
             n_third_person_cameras n_wrist_cameras load_depth load_proprio = Inr (cfgs, ws)"
    and "cfg \<in> set cfgs"
    and "0 \<le> n_third_person_cameras" and "0 \<le> n_wrist_cameras"
  shows "\<exists>kw. cfg_name cfg \<in> fst ` set data_mix \<and> registry (cfg_name cfg) = Some kw \<and>
           cfg_image_obs_keys cfg =
             take (nat n_third_person_cameras) (image_obs_keys kw)
             @ (if 0 < n_wrist_cameras
                then drop (length (image_obs_keys kw) - nat n_wrist_cameras) (image_obs_keys kw)
                else [])"
proof -
  let ?mix = "if deduplicate then dedup_loop data_mix [] [] else data_mix"
  have sub: "set ?mix \<subseteq> set data_mix"
    using set_first_occurrences[of data_mix] by (simp add: dedup_loop_eq)
  have "resolve_loop registry data_dir n_third_person_cameras n_wrist_cameras load_depth
          load_proprio ?mix [] [] = Inr (cfgs, ws)"
    using assms(1) by (simp add: make_oxe_dataset_kwargs_and_weights_def Let_def)
  from resolve_loop_member[OF this assms(2)]
  obtain e kw where e: "e \<in> set ?mix" "registry (fst e) = Some kw" "cfg_name cfg = fst e"
    "cfg_image_obs_keys cfg = trim_keys (image_obs_keys kw) n_third_person_cameras n_wrist_cameras"
    by auto
  have "cfg_name cfg \<in> fst ` set data_mix" using e(1,3) sub by auto
  moreover have "registry (cfg_name cfg) = Some kw" using e(2,3) by simp
  moreover have "cfg_image_obs_keys cfg =
             take (nat n_third_person_cameras) (image_obs_keys kw)
             @ (if 0 < n_wrist_cameras
                then drop (length (image_obs_keys kw) - nat n_wrist_cameras) (image_obs_keys kw)
                else [])"
    using e(4) trim_keys_nonneg[OF assms(3,4)] by simp
  ultimately show ?thesis by blast
qed

theorem camera_trimming_witness:
  "ex_cams_mix = [(''cams'', 1)] \<and>
   image_obs_keys ex_entry = [''cam0'', ''cam1'', ''cam2'', ''wrist0''] \<and>
   (\<exists>cfg. make_oxe_dataset_kwargs_and_weights ex_registry ex_cams_mix ''gs://data''
            True 1 1 True True = Inr ([cfg], [1]) \<and>
         cfg_name cfg = ''cams'' \<and>
         cfg_image_obs_keys cfg = [''cam0'', ''wrist0''])"
proof -
  define dir where "dir = ''gs://data''"
  define cfg where "cfg = resolved_config ex_registry dir 1 1 True True ''cams''"
  have sup: "\<forall>e \<in> set ex_cams_mix.
               \<exists>kw. ex_registry (fst e) = Some kw \<and> action_encoding kw = EEF_POS"
    by (simp add: ex_cams_mix_def ex_registry_cams ex_entry_encoding)
  have r: "make_oxe_dataset_kwargs_and_weights ex_registry ex_cams_mix dir True 1 1 True True
             = Inr ([cfg], [1])"
    unfolding make_oxe_supported[OF sup] by (simp add: ex_cams_mix_def cfg_def)
  have nm: "cfg_name cfg = ''cams''" by (simp add: cfg_def)
  have mem: "cfg \<in> set [cfg]" by simp
  from camera_trimming[OF r mem]
  obtain kw where kw: "ex_registry (cfg_name cfg) = Some kw"
    and keys: "cfg_image_obs_keys cfg = take (nat 1) (image_obs_keys kw)
             @ (if (0::int) < 1
                then drop (length (image_obs_keys kw) - nat 1) (image_obs_keys kw)
                else [])"
    by auto
  from kw have "kw = ex_entry" by (simp add: nm ex_registry_cams)
  with keys have k: "cfg_image_obs_keys cfg = [''cam0'', ''wrist0'']"
    by (simp add: ex_entry_def)
  have "\<exists>cfg. make_oxe_dataset_kwargs_and_weights ex_registry ex_cams_mix dir
            True 1 1 True True = Inr ([cfg], [1]) \<and>
         cfg_name cfg = ''cams'' \<and>
         cfg_image_obs_keys cfg = [''cam0'', ''wrist0'']"
    using r nm k by (intro exI[of _ cfg] conjI)
  then show ?thesis
    unfolding dir_def by (simp add: ex_cams_mix_def ex_entry_def)
qed

section \<open>Properties of the tokenizer\<close>

lemma length_linspace: "length (linspace start stop num) = num"
  by (simp add: linspace_def)

lemma length_setup:
  "BinTokenizer_setup ppf self = Inr thresholds \<Longrightarrow> length thresholds = n_bins self + 1"
  by (auto simp: BinTokenizer_setup_def length_linspace split: if_splits)

lemma set_zip_tl_butlast:
  assumes "(u, l) \<in> set (zip (tl xs) (butlast xs))"
  shows "u \<in> set xs \<and> l \<in> set xs"
proof -
  from assms have u: "u \<in> set (tl xs)" and l: "l \<in> set (butlast xs)"
    by (auto dest: set_zip_leftD set_zip_rightD)
  from u have "u \<in> set xs" by (cases xs) simp_all
  moreover from l have "l \<in> set xs" by (rule in_set_butlastD)
  ultimately show ?thesis by simp
qed

lemma token_one_hot_out_of_range:
  assumes "x < Min (set thresholds) \<or> Max (set thresholds) \<le> x"
  shows "token_one_hot thresholds x = replicate (length thresholds - 1) 0"
proof -
  have z: "(if x < u \<and> l \<le> x then 1 else 0::nat) = 0"
    if "(u, l) \<in> set (zip (tl thresholds) (butlast thresholds))" for u l
  proof -
    have ul: "u \<in> set thresholds" "l \<in> set thresholds"
      using set_zip_tl_butlast[OF that] by simp_all
    then have "Min (set thresholds) \<le> l" "u \<le> Max (set thresholds)" by simp_all
    with assms show ?thesis by auto
  qed
  have "map (\<lambda>(u, l). if x < u \<and> l \<le> x then 1 else 0::nat) (zip (tl thresholds) (butlast thresholds))
        = map (\<lambda>_. 0) (zip (tl thresholds) (butlast thresholds))"
    by (rule map_cong) (auto simp: z)
  then show ?thesis
    by (simp add: token_one_hot_def map_replicate_const)
qed

lemma argmax_zeros:
  assumes n: "0 < n"
  shows "argmax (replicate n 0) = Inr 0"
proof -
  have "set (replicate n (0::nat)) = {0}" using n by auto
  then have m: "Max (set (replicate n (0::nat))) = 0" by simp
  have ne: "replicate n (0::nat) \<noteq> []" using n by simp
  have "takeWhile (\<lambda>v. v \<noteq> 0) (replicate n (0::nat)) = []"
    using n by (cases n) simp_all
  then show ?thesis
    unfolding argmax_def m using ne by simp
qed

text \<open>
  C10. Out-of-range binning. For bin type "normal" and at least one bin, an input below the
  lowest threshold, or at or above the highest one, has an all-zero one-hot vector and
  token 0.
\<close>

theorem bin_tokenizer_out_of_range:
  assumes "bin_type self = ''normal''"
    and "BinTokenizer_setup ppf self = Inr thresholds"
    and "0 < n_bins self"
    and "x < Min (set thresholds) \<or> Max (set thresholds) \<le> x"
  shows "token_one_hot thresholds x = replicate (n_bins self) 0 \<and>
         BinTokenizer_call ppf self x = Inr 0"
proof -
  have len: "length thresholds - 1 = n_bins self"
    using length_setup[OF assms(2)] by simp
  have oh: "token_one_hot thresholds x = replicate (n_bins self) 0"
    using token_one_hot_out_of_range[OF assms(4)] len by simp
  have "BinTokenizer_call ppf self x = argmax (token_one_hot thresholds x)"
    using assms(1,2) by (simp add: BinTokenizer_call_def)
  with oh argmax_zeros[OF assms(3)] show ?thesis by simp
qed

lemma ex_thresholds:
  "BinTokenizer_setup ex_ppf ex_tokenizer = Inr [- (499999 / 125000), 0, 499999 / 125000]"
  by (simp add: BinTokenizer_setup_def ex_tokenizer_def ex_ppf_def linspace_def EPS_def
      upt_conv_Cons)

theorem bin_tokenizer_out_of_range_witness:
  "BinTokenizer_setup ex_ppf ex_tokenizer = Inr [- (499999 / 125000), 0, 499999 / 125000] \<and>
   BinTokenizer_call ex_ppf ex_tokenizer 5 = Inr 0 \<and>
   BinTokenizer_call ex_ppf ex_tokenizer (- 5) = Inr 0 \<and>
   BinTokenizer_call ex_ppf ex_tokenizer 1 = Inr 1"
proof -
  have t: "bin_type ex_tokenizer = ''normal''" and n: "0 < n_bins ex_tokenizer"
    by (simp_all add: ex_tokenizer_def)
  have hi: "(5::real) < Min (set [- (499999 / 125000), 0, 499999 / 125000]) \<or>
            Max (set [- (499999 / 125000), 0, 499999 / 125000]) \<le> (5::real)"
    by simp
  have lo: "(- 5::real) < Min (set [- (499999 / 125000), 0, 499999 / 125000]) \<or>
            Max (set [- (499999 / 125000), 0, 499999 / 125000]) \<le> (- 5::real)"
    by simp
  have "BinTokenizer_call ex_ppf ex_tokenizer 5 = Inr 0"
    using bin_tokenizer_out_of_range[OF t ex_thresholds n hi] by simp
  moreover have "BinTokenizer_call ex_ppf ex_tokenizer (- 5) = Inr 0"
    using bin_tokenizer_out_of_range[OF t ex_thresholds n lo] by simp
  moreover have "token_one_hot [- (499999 / 125000), 0, 499999 / 125000] 1 = [0, 1]"
    by (simp add: token_one_hot_def)
  then have "BinTokenizer_call ex_ppf ex_tokenizer 1 = Inr 1"
    by (simp add: BinTokenizer_call_def ex_thresholds t argmax_def)
  ultimately show ?thesis using ex_thresholds by simp
qed

section \<open>Independence of groups\<close>

text \<open>
  C3. Independence of unreferenced groups, at the mask of the example with the group
  "value" added after "obs" (one token per step, attended to by no group, attending to
  nothing). The sequence has 9 positions: 0-2 task, 3-4 obs at timestep 0, 5 value at
  timestep 0, 6-7 obs at timestep 1, 8 value at timestep 1. The descriptor of position 5
  names the group "obs", so the mask lets the obs queries (rows 3 and 4) attend to the
  key at position 5, a token of the added group.
\<close>

theorem added_group_is_visible_to_existing_group:
  "total_tokens [ex_task] [ex_obs, ex_value] (shape1 [[True, True]]) = 9 \<and>
   get_token_description [ex_task] [ex_obs, ex_value] 3 = Inr (TokenMetadata ''obs'' 0 [''task'']) \<and>
   get_token_description [ex_task] [ex_obs, ex_value] 5 = Inr (TokenMetadata ''obs'' 0 [''task'']) \<and>
   mask_entry [ex_task] [ex_obs, ex_value] 3 5 = Inr 1 \<and>
   generate_attention_mask ex_self [ex_task] [ex_obs, ex_value] [[True, True]] =
     Inr [replicate 8
       [[True, True, True, False, False, False, False, False, False],
        [True, True, True, False, False, False, False, False, False],
        [True, True, True, False, False, False, False, False, False],
        [False, False, False, True, True, True, True, True, True],
        [False, False, False, True, True, True, True, True, True],
        [False, False, False, True, True, True, True, True, True],
        [False, False, False, False, False, False, True, True, True],
        [False, False, False, False, False, False, True, True, True],
        [False, False, False, False, False, False, True, True, True]]]"
  by code_simp

end
